theory Spec2Isabelle
  imports Complex_Main "HOL-Library.Log_Nat"
begin

section \<open>JavaScript strings\<close>

text \<open>
  A JavaScript string is a sequence of UTF-16 code units. A code unit is modelled by its
  number; \<open>js\<close> turns an ASCII literal into such a sequence.
\<close>

type_synonym jsstring = "nat list"

definition js :: "string \<Rightarrow> jsstring" where
  "js s = map of_char s"

definition SP :: nat where
  "SP = 32"

text \<open>The code units that \<^verbatim>\<open>String.prototype.trim\<close> removes (WhiteSpace and LineTerminator).\<close>

definition isWhiteSpace :: "nat \<Rightarrow> bool" where
  "isWhiteSpace c \<longleftrightarrow>
     c \<in> {9, 10, 11, 12, 13, 32, 160, 5760, 8232, 8233, 8239, 8287, 12288, 65279}
     \<or> (8192 \<le> c \<and> c \<le> 8202)"

definition trim :: "jsstring \<Rightarrow> jsstring" where
  "trim s = rev (dropWhile isWhiteSpace (rev (dropWhile isWhiteSpace s)))"

text \<open>
  \<^verbatim>\<open>s.split(sep)\<close> for a one-unit separator: the pieces between the separators, of which
  there is always at least one (\<^verbatim>\<open>''.split(' ')\<close> is \<^verbatim>\<open>['']\<close>).
\<close>

fun split_js :: "nat \<Rightarrow> jsstring \<Rightarrow> jsstring list" where
  "split_js sep [] = [[]]"
| "split_js sep (c # cs) =
     (if c = sep then [] # split_js sep cs
      else (case split_js sep cs of
              [] \<Rightarrow> [[c]]
            | w # ws \<Rightarrow> (c # w) # ws))"

section \<open>Text wrapping (\<^verbatim>\<open>wrapText\<close> in \<^verbatim>\<open>src/utils/fileUtils.ts\<close>)\<close>

text \<open>
  The first argument stands for \<^verbatim>\<open>context.measureText(t).width\<close> under the font the
  context has when \<^verbatim>\<open>wrapText\<close> is called. The arguments \<^verbatim>\<open>x\<close>, \<^verbatim>\<open>y\<close> and
  \<^verbatim>\<open>lineH\<close> of the source are not used by its body and are left out. The loop over
  \<^verbatim>\<open>n\<close> is \<open>wrapText_loop\<close>, which returns the last \<^verbatim>\<open>line\<close> and the \<^verbatim>\<open>lines\<close>
  pushed before it.
\<close>

function wrapText_loop ::
  "(jsstring \<Rightarrow> real) \<Rightarrow> real \<Rightarrow> jsstring list \<Rightarrow> nat \<Rightarrow> jsstring \<Rightarrow> jsstring list
     \<Rightarrow> jsstring \<times> jsstring list" where
  "wrapText_loop measureText maxW words n line lines =
     (if n < length words then
        (let testLine = line @ words ! n @ [SP] in
         if measureText testLine > maxW \<and> n > 0
         then wrapText_loop measureText maxW words (n + 1) (words ! n @ [SP]) (lines @ [trim line])
         else wrapText_loop measureText maxW words (n + 1) testLine lines)
      else (line, lines))"
  by pat_completeness auto
termination
  by (relation "measure (\<lambda>(m, maxW, words, n, line, lines). length words - n)") auto

declare wrapText_loop.simps [simp del]

definition wrapText :: "(jsstring \<Rightarrow> real) \<Rightarrow> jsstring \<Rightarrow> real \<Rightarrow> jsstring list" where
  "wrapText measureText textToWrap maxW =
     (let words = split_js SP textToWrap;
          (line, lines) = wrapText_loop measureText maxW words 0 [] []
      in lines @ [trim line])"

text \<open>
  For the proofs, the same loop with the current line kept as the list of the words it
  holds: each word enters a line followed by one space, so a line is \<open>joinsp\<close> of its
  words. The first word always opens the first line (\<^verbatim>\<open>n > 0\<close> fails for it).
\<close>

definition joinsp :: "jsstring list \<Rightarrow> jsstring" where
  "joinsp ws = concat (map (\<lambda>w. w @ [SP]) ws)"

fun wrapGroups_from ::
  "(jsstring \<Rightarrow> real) \<Rightarrow> real \<Rightarrow> jsstring list \<Rightarrow> jsstring list \<Rightarrow> jsstring list list" where
  "wrapGroups_from m maxW cur [] = [cur]"
| "wrapGroups_from m maxW cur (w # ws) =
     (if m (joinsp (cur @ [w])) > maxW
      then cur # wrapGroups_from m maxW [w] ws
      else wrapGroups_from m maxW (cur @ [w]) ws)"

definition wrapGroups :: "(jsstring \<Rightarrow> real) \<Rightarrow> real \<Rightarrow> jsstring list \<Rightarrow> jsstring list list" where
  "wrapGroups m maxW words =
     (case words of [] \<Rightarrow> [[]] | w # ws \<Rightarrow> wrapGroups_from m maxW [w] ws)"

text \<open>
  A line is within the width when every extension of it by a further word was measured
  within \<open>maxW\<close>; a list of lines is greedy when every line is within the width and
  each line but the last could not take the first word of the next.
\<close>

definition fits :: "(jsstring \<Rightarrow> real) \<Rightarrow> real \<Rightarrow> jsstring list \<Rightarrow> bool" where
  "fits m maxW g \<longleftrightarrow> (\<forall>k \<in> {2..length g}. m (joinsp (take k g)) \<le> maxW)"

fun greedy_groups :: "(jsstring \<Rightarrow> real) \<Rightarrow> real \<Rightarrow> jsstring list list \<Rightarrow> bool" where
  "greedy_groups m maxW [] \<longleftrightarrow> True"
| "greedy_groups m maxW [g] \<longleftrightarrow> fits m maxW g"
| "greedy_groups m maxW (g # h # rest) \<longleftrightarrow>
     fits m maxW g \<and> m (joinsp (g @ [hd h])) > maxW \<and> greedy_groups m maxW (h # rest)"

text \<open>A text measure is monotone when lengthening a text on either side never narrows it.\<close>

definition monotone_measure :: "(jsstring \<Rightarrow> real) \<Rightarrow> bool" where
  "monotone_measure m \<longleftrightarrow> (\<forall>s t. m s \<le> m (s @ t)) \<and> (\<forall>s t. m t \<le> m (s @ t))"

section \<open>The canvas\<close>

text \<open>
  In the caption compositor JavaScript numbers are taken as real numbers: the rounding
  of its floating-point arithmetic moves coordinates by parts in \<open>10\<^sup>1\<^sup>3\<close> and decides
  no comparison and no truncation there. \<^verbatim>\<open>Math.round\<close> rounds to the nearest integer, a
  half upwards.
\<close>

definition Math_round :: "real \<Rightarrow> real" where
  "Math_round x = of_int \<lfloor>x + 1 / 2\<rfloor>"

subsection \<open>Double-precision arithmetic\<close>

text \<open>
  Where a comparison or a truncation depends on it (the display size of the touch-up
  canvas), arithmetic is that of IEEE 754 doubles: the result of an operation, and the
  value of a decimal literal, is the exact result rounded to the nearest number with a
  53-bit significand, ties to the even significand (\<open>toDouble\<close>). For a positive
  \<open>x\<close>, \<open>binade x\<close> is the exponent \<open>e\<close> with \<open>2\<^sup>e \<le> x < 2\<^sup>e\<^sup>+\<^sup>1\<close> and \<open>ulp x\<close> the
  distance between neighbouring doubles there. Overflow, subnormal numbers and
  \<^verbatim>\<open>NaN\<close> are not modelled: for a window and an image of sizes below \<open>2\<^sup>3\<^sup>2\<close>, the
  numbers rounded here are zero or lie between \<open>2\<^sup>-\<^sup>3\<^sup>3\<close> and \<open>2\<^sup>6\<^sup>5\<close>.
\<close>

definition roundTiesToEven :: "real \<Rightarrow> int" where
  "roundTiesToEven x =
     (let f = \<lfloor>x\<rfloor>; d = x - of_int f
      in if d < 1 / 2 then f else if d > 1 / 2 then f + 1 else if even f then f else f + 1)"

definition binade :: "real \<Rightarrow> int" where
  "binade x =
     (if 1 \<le> x then bitlen \<lfloor>x\<rfloor> - 1
      else (let k = bitlen \<lfloor>1 / x\<rfloor> - 1 in if 1 / x = 2 ^ nat k then - k else - k - 1))"

definition ulp :: "real \<Rightarrow> real" where
  "ulp x = 2 powi (binade x - 52)"

definition toDouble :: "real \<Rightarrow> real" where
  "toDouble x =
     (if x = 0 then 0
      else sgn x * of_int (roundTiesToEven (\<bar>x\<bar> / ulp \<bar>x\<bar>)) * ulp \<bar>x\<bar>)"

text \<open>
  A font is the pair of weight and pixel size of the font strings of the source,
  \<^verbatim>\<open>`900 ${size}px sans-serif`\<close>; the family is always \<^verbatim>\<open>sans-serif\<close>.
\<close>

record css_font =
  weight :: nat
  size_px :: real

datatype gradient = LinearGradient real real real real "(real \<times> jsstring) list"

datatype fill_style = Color jsstring | GradientStyle gradient

datatype text_align = AlignStart | AlignEnd | AlignLeft | AlignRight | AlignCenter

datatype text_baseline = Alphabetic | Top | Hanging | Middle | Ideographic | Bottom

datatype composite = SourceOver | DestinationOut

datatype line_cap = CapButt | CapRound | CapSquare

datatype line_join = JoinMiter | JoinRound | JoinBevel

datatype path_seg =
    MoveTo real real
  | LineTo real real
  | RoundRect real real real real real
  | ClosePath

text \<open>A decoded image: its pixel size and the URL its pixels were decoded from.\<close>

record html_image =
  img_width :: nat
  img_height :: nat
  img_src :: jsstring

text \<open>
  The bitmap of a canvas is the list of the drawing operations applied to it since it was
  last cleared by a resize, each with the drawing state it was issued under. An empty
  list is the transparent bitmap.
\<close>

datatype draw_op =
    DrawImage composite html_image real real
  | DrawImageScaled composite html_image real real real real
  | DrawCanvasScaled composite nat nat "draw_op list" real real real real
  | FillRect composite fill_style real real real real
  | ClearRect real real real real
  | Fill composite fill_style "path_seg list"
  | Stroke composite fill_style real line_cap line_join "path_seg list"
  | FillText composite fill_style css_font text_align text_baseline jsstring real real

text \<open>A canvas element together with the state of its 2D context.\<close>

record canvas =
  width :: nat
  height :: nat
  font :: css_font
  fillStyle :: fill_style
  strokeStyle :: fill_style
  textAlign :: text_align
  textBaseline :: text_baseline
  globalCompositeOperation :: composite
  lineWidth :: real
  lineCap :: line_cap
  lineJoin :: line_join
  path :: "path_seg list"
  bitmap :: "draw_op list"

definition newCanvas :: canvas where
  "newCanvas = \<lparr>width = 300, height = 150,
     font = \<lparr>weight = 400, size_px = 10\<rparr>,
     fillStyle = Color (js ''#000000''), strokeStyle = Color (js ''#000000''),
     textAlign = AlignStart, textBaseline = Alphabetic,
     globalCompositeOperation = SourceOver,
     lineWidth = 1, lineCap = CapButt, lineJoin = JoinMiter,
     path = [], bitmap = []\<rparr>"

text \<open>
  Assigning \<^verbatim>\<open>canvas.width\<close> or \<^verbatim>\<open>canvas.height\<close> clears the bitmap and resets the
  context state. The two attributes are unsigned integers: a fractional number assigned
  to one of them is truncated (\<open>toULong\<close>).
\<close>

definition set_width :: "nat \<Rightarrow> canvas \<Rightarrow> canvas" where
  "set_width w c = newCanvas\<lparr>width := w, height := height c\<rparr>"

definition set_height :: "nat \<Rightarrow> canvas \<Rightarrow> canvas" where
  "set_height h c = newCanvas\<lparr>width := width c, height := h\<rparr>"

definition toULong :: "real \<Rightarrow> nat" where
  "toULong x = nat \<lfloor>x\<rfloor>"

definition drawImage :: "html_image \<Rightarrow> real \<Rightarrow> real \<Rightarrow> canvas \<Rightarrow> canvas" where
  "drawImage img x y c =
     c\<lparr>bitmap := bitmap c @ [DrawImage (globalCompositeOperation c) img x y]\<rparr>"

definition drawImageScaled ::
  "html_image \<Rightarrow> real \<Rightarrow> real \<Rightarrow> real \<Rightarrow> real \<Rightarrow> canvas \<Rightarrow> canvas" where
  "drawImageScaled img x y w h c =
     c\<lparr>bitmap := bitmap c @ [DrawImageScaled (globalCompositeOperation c) img x y w h]\<rparr>"

definition drawCanvasScaled ::
  "canvas \<Rightarrow> real \<Rightarrow> real \<Rightarrow> real \<Rightarrow> real \<Rightarrow> canvas \<Rightarrow> canvas" where
  "drawCanvasScaled source x y w h c =
     c\<lparr>bitmap := bitmap c @
       [DrawCanvasScaled (globalCompositeOperation c)
          (width source) (height source) (bitmap source) x y w h]\<rparr>"

definition createLinearGradient :: "real \<Rightarrow> real \<Rightarrow> real \<Rightarrow> real \<Rightarrow> gradient" where
  "createLinearGradient x0 y0 x1 y1 = LinearGradient x0 y0 x1 y1 []"

fun addColorStop :: "real \<Rightarrow> jsstring \<Rightarrow> gradient \<Rightarrow> gradient" where
  "addColorStop offset color (LinearGradient x0 y0 x1 y1 stops) =
     LinearGradient x0 y0 x1 y1 (stops @ [(offset, color)])"

definition fillRect :: "real \<Rightarrow> real \<Rightarrow> real \<Rightarrow> real \<Rightarrow> canvas \<Rightarrow> canvas" where
  "fillRect x y w h c =
     c\<lparr>bitmap := bitmap c @ [FillRect (globalCompositeOperation c) (fillStyle c) x y w h]\<rparr>"

definition clearRect :: "real \<Rightarrow> real \<Rightarrow> real \<Rightarrow> real \<Rightarrow> canvas \<Rightarrow> canvas" where
  "clearRect x y w h c = c\<lparr>bitmap := bitmap c @ [ClearRect x y w h]\<rparr>"

definition beginPath :: "canvas \<Rightarrow> canvas" where
  "beginPath c = c\<lparr>path := []\<rparr>"

definition moveTo :: "real \<Rightarrow> real \<Rightarrow> canvas \<Rightarrow> canvas" where
  "moveTo x y c = c\<lparr>path := path c @ [MoveTo x y]\<rparr>"

definition lineTo :: "real \<Rightarrow> real \<Rightarrow> canvas \<Rightarrow> canvas" where
  "lineTo x y c = c\<lparr>path := path c @ [LineTo x y]\<rparr>"

definition roundRect :: "real \<Rightarrow> real \<Rightarrow> real \<Rightarrow> real \<Rightarrow> real \<Rightarrow> canvas \<Rightarrow> canvas" where
  "roundRect x y w h r c = c\<lparr>path := path c @ [RoundRect x y w h r]\<rparr>"

definition closePath :: "canvas \<Rightarrow> canvas" where
  "closePath c = c\<lparr>path := path c @ [ClosePath]\<rparr>"

definition fill :: "canvas \<Rightarrow> canvas" where
  "fill c = c\<lparr>bitmap := bitmap c @ [Fill (globalCompositeOperation c) (fillStyle c) (path c)]\<rparr>"

definition stroke :: "canvas \<Rightarrow> canvas" where
  "stroke c =
     c\<lparr>bitmap := bitmap c @
       [Stroke (globalCompositeOperation c) (strokeStyle c) (lineWidth c) (lineCap c) (lineJoin c)
          (path c)]\<rparr>"

definition fillText :: "jsstring \<Rightarrow> real \<Rightarrow> real \<Rightarrow> canvas \<Rightarrow> canvas" where
  "fillText t x y c =
     c\<lparr>bitmap := bitmap c @
       [FillText (globalCompositeOperation c) (fillStyle c) (font c) (textAlign c) (textBaseline c)
          t x y]\<rparr>"

section \<open>The browser\<close>

text \<open>
  What the code asks of the browser: the width of a text under a font
  (\<^verbatim>\<open>measureText(t).width\<close>), the decoding of an image URL (\<open>None\<close> when the image
  element fires \<^verbatim>\<open>onerror\<close>), whether \<^verbatim>\<open>getContext('2d')\<close> yields a context, the PNG
  encoder behind \<^verbatim>\<open>toDataURL\<close>, and the size of the window.
\<close>

record browser =
  measureWidth :: "css_font \<Rightarrow> jsstring \<Rightarrow> real"
  decodeImage :: "jsstring \<Rightarrow> html_image option"
  context2d :: bool
  encodePng :: "nat \<Rightarrow> nat \<Rightarrow> draw_op list \<Rightarrow> jsstring"
  innerWidth :: nat
  innerHeight :: nat

definition measureText :: "browser \<Rightarrow> canvas \<Rightarrow> jsstring \<Rightarrow> real" where
  "measureText env c t = measureWidth env (font c) t"

definition toDataURL :: "browser \<Rightarrow> canvas \<Rightarrow> jsstring" where
  "toDataURL env c = js ''data:image/png;base64,'' @ encodePng env (width c) (height c) (bitmap c)"

text \<open>
  \<^verbatim>\<open>document.createElement('canvas')\<close> allocates a new canvas object. The objects
  allocated so far are a list, and an object is named by its position in it.
\<close>

type_synonym heap = "canvas list"

definition createElement_canvas :: "heap \<Rightarrow> nat \<times> heap" where
  "createElement_canvas doc = (length doc, doc @ [newCanvas])"

section \<open>Caption compositor (\<^verbatim>\<open>mergeTextAndImage\<close> in \<^verbatim>\<open>src/utils/fileUtils.ts\<close>)\<close>

record structuredText =
  tag :: jsstring
  headline :: jsstring
  cta :: jsstring

datatype merge_error = NoCanvasContext | ImageError

text \<open>The body of \<^verbatim>\<open>image.onload\<close>: the drawing, up to the call of \<^verbatim>\<open>resolve\<close>.\<close>

definition mergeTextAndImage_onload ::
  "browser \<Rightarrow> canvas \<Rightarrow> html_image \<Rightarrow> structuredText \<Rightarrow> canvas" where
  "mergeTextAndImage_onload env canvas img text =
    (let c = set_width (img_width img) canvas;
         c = set_height (img_height img) c;
         c = drawImage img 0 0 c;
         padding = real (width c) * 0.08;
         maxWidth = real (width c) - (padding * 2);
         gradient = createLinearGradient 0 (real (height c) * 0.4) 0 (real (height c));
         gradient = addColorStop 0 (js ''rgba(0, 0, 0, 0)'') gradient;
         gradient = addColorStop 1 (js ''rgba(0, 0, 0, 0.8)'') gradient;
         c = c\<lparr>fillStyle := GradientStyle gradient\<rparr>;
         c = fillRect 0 0 (real (width c)) (real (height c)) c;
         headlineFontSize = max 32 (Math_round (real (width c) / 15));
         c = c\<lparr>font := \<lparr>weight = 900, size_px = headlineFontSize\<rparr>\<rparr>;
         c = c\<lparr>fillStyle := Color (js ''white'')\<rparr>;
         c = c\<lparr>textAlign := AlignLeft\<rparr>;
         c = c\<lparr>textBaseline := Bottom\<rparr>;
         headlineLineHeight = headlineFontSize * 1.1;
         headlineLines = wrapText (measureText env c) (headline text) maxWidth;
         headlineTotalHeight = real (length headlineLines) * headlineLineHeight;
         ctaFontSize = max 18 (Math_round (real (width c) / 30));
         c = c\<lparr>font := \<lparr>weight = 700, size_px = ctaFontSize\<rparr>\<rparr>;
         ctaMetrics = measureText env c (cta text);
         ctaHeight = ctaFontSize * 1.6;
         ctaY = real (height c) - padding;
         ctaBgPadding = ctaFontSize * 0.4;
         c = c\<lparr>fillStyle := Color (js ''#DC2626'')\<rparr>;
         c = beginPath c;
         c = roundRect padding (ctaY - ctaHeight + ctaBgPadding / 2)
               (ctaMetrics + ctaBgPadding * 2) ctaHeight 8 c;
         c = fill c;
         c = c\<lparr>fillStyle := Color (js ''white'')\<rparr>;
         c = c\<lparr>textBaseline := Middle\<rparr>;
         c = fillText (cta text) (padding + ctaBgPadding) (ctaY - ctaHeight / 2 + ctaBgPadding / 2) c;
         headlineY = ctaY - ctaHeight - (padding * 0.5);
         c = c\<lparr>font := \<lparr>weight = 900, size_px = headlineFontSize\<rparr>\<rparr>;
         c = c\<lparr>textBaseline := Bottom\<rparr>;
         c = foldl (\<lambda>c i. fillText (headlineLines ! i) padding
                     (headlineY - real (length headlineLines - 1 - i) * headlineLineHeight) c)
               c [0..<length headlineLines];
         tagY = headlineY - headlineTotalHeight - (padding * 0.5);
         tagFontSize = max 16 (Math_round (real (width c) / 35));
         c = c\<lparr>font := \<lparr>weight = 600, size_px = tagFontSize\<rparr>\<rparr>;
         tagMetrics = measureText env c (tag text);
         tagHeight = tagFontSize * 1.8;
         c = c\<lparr>fillStyle := Color (js ''#F97316'')\<rparr>;
         c = beginPath c;
         c = roundRect padding (tagY - tagHeight) (tagMetrics + (tagFontSize * 1.5)) tagHeight 8 c;
         c = fill c;
         c = c\<lparr>fillStyle := Color (js ''white'')\<rparr>;
         c = c\<lparr>textBaseline := Middle\<rparr>;
         c = fillText (tag text) (padding + (tagFontSize * 0.75)) (tagY - tagHeight / 2) c
     in c)"

text \<open>
  The promise: \<open>Inl\<close> is a rejection, \<open>Inr\<close> the data URL it resolves with. The canvas
  is created first; the image element then fires \<^verbatim>\<open>onload\<close> or \<^verbatim>\<open>onerror\<close>.
\<close>

definition mergeTextAndImage ::
  "browser \<Rightarrow> heap \<Rightarrow> jsstring \<Rightarrow> jsstring \<Rightarrow> structuredText \<Rightarrow> (merge_error + jsstring) \<times> heap" where
  "mergeTextAndImage env doc base64Image mimeType text =
    (let (canvas, doc) = createElement_canvas doc in
     if \<not> context2d env then (Inl NoCanvasContext, doc)
     else
       (case decodeImage env (js ''data:'' @ mimeType @ js '';base64,'' @ base64Image) of
          None \<Rightarrow> (Inl ImageError, doc)
        | Some img \<Rightarrow>
            (let doc = doc[canvas := mergeTextAndImage_onload env (doc ! canvas) img text]
             in (Inr (toDataURL env (doc ! canvas)), doc))))"

section \<open>Posts and captions (\<^verbatim>\<open>src/components/PostCard.tsx\<close>, \<^verbatim>\<open>src/App.tsx\<close>)\<close>

record post =
  post_id :: jsstring
  texts :: "structuredText list"
  activeTextIndex :: int
  post_image :: jsstring
  imageMimeType :: jsstring

text \<open>Reading an array at an index: \<open>None\<close> is \<^verbatim>\<open>undefined\<close>, out of range.\<close>

definition index_js :: "'a list \<Rightarrow> int \<Rightarrow> 'a option" where
  "index_js xs i = (if 0 \<le> i \<and> i < int (length xs) then Some (xs ! nat i) else None)"

text \<open>The remainder \<^verbatim>\<open>a % b\<close> on integers, for \<open>b \<noteq> 0\<close>: it has the sign of \<open>a\<close>.\<close>

definition rem_js :: "int \<Rightarrow> int \<Rightarrow> int" where
  "rem_js a b = sgn a * (\<bar>a\<bar> mod \<bar>b\<bar>)"

text \<open>\<open>None\<close> is a falsy \<^verbatim>\<open>activeText\<close> (\<^verbatim>\<open>null\<close> or \<^verbatim>\<open>undefined\<close>).\<close>

definition activeText :: "post \<Rightarrow> structuredText option" where
  "activeText p =
     (if length (texts p) > 0 then index_js (texts p) (activeTextIndex p) else None)"

text \<open>
  What a click on the download button ends in: \<^verbatim>\<open>downloadImage\<close> called with a URL and
  a file name, or the error branch that logs and alerts.
\<close>

datatype download_outcome = DownloadImage jsstring jsstring | MergeAlert

definition fileName :: "post \<Rightarrow> jsstring" where
  "fileName p = js ''genius-post-'' @ take 8 (post_id p) @ js ''.png''"

definition handleDownload :: "browser \<Rightarrow> heap \<Rightarrow> post \<Rightarrow> download_outcome \<times> heap" where
  "handleDownload env doc p =
     (case activeText p of
        None \<Rightarrow>
          (DownloadImage (js ''data:'' @ imageMimeType p @ js '';base64,'' @ post_image p)
             (fileName p), doc)
      | Some text \<Rightarrow>
          (case mergeTextAndImage env doc (post_image p) (imageMimeType p) text of
             (Inr mergedImageDataUrl, doc) \<Rightarrow> (DownloadImage mergedImageDataUrl (fileName p), doc)
           | (Inl error, doc) \<Rightarrow> (MergeAlert, doc)))"

text \<open>
  \<^verbatim>\<open>handleCycleCaption\<close> yields the arguments it calls \<^verbatim>\<open>onCaptionChange\<close> with. Its
  button is rendered only for a post of more than one caption.
\<close>

definition handleCycleCaption :: "post \<Rightarrow> jsstring \<times> int" where
  "handleCycleCaption p =
     (let newIndex = rem_js (activeTextIndex p + 1) (int (length (texts p)))
      in (post_id p, newIndex))"

text \<open>The posts of the application are \<open>None\<close> while they are \<^verbatim>\<open>null\<close>.\<close>

definition handleCaptionChange :: "post list option \<Rightarrow> jsstring \<Rightarrow> int \<Rightarrow> post list option" where
  "handleCaptionChange posts postId newIndex =
     (case posts of
        None \<Rightarrow> None
      | Some currentPosts \<Rightarrow>
          Some (map (\<lambda>p. if post_id p = postId then p\<lparr>activeTextIndex := newIndex\<rparr> else p)
                  currentPosts))"

text \<open>A click on the cycle button of the card showing the \<open>k\<close>-th post.\<close>

definition cycleCaption :: "nat \<Rightarrow> post list option \<Rightarrow> post list option" where
  "cycleCaption k posts =
     (case posts of
        None \<Rightarrow> None
      | Some currentPosts \<Rightarrow>
          (if k < length currentPosts then
             (let (postId, newIndex) = handleCycleCaption (currentPosts ! k)
              in handleCaptionChange posts postId newIndex)
           else posts))"

section \<open>Touch-up canvas (\<^verbatim>\<open>src/components/ComicEditor.tsx\<close>)\<close>

datatype tool = Brush | Eraser

text \<open>The inline style of the container element; \<open>None\<close> is a property not set.\<close>

record container =
  style_width :: "real option"
  style_height :: "real option"
  backgroundImage :: "jsstring option"
  backgroundSize :: "jsstring option"
  backgroundRepeat :: "jsstring option"
  backgroundPosition :: "jsstring option"

text \<open>
  The mounted component: its property \<^verbatim>\<open>imageDataUrl\<close>, its state, and the two elements
  its refs point to.
\<close>

record editor =
  imageDataUrl :: jsstring
  isDrawing :: bool
  tool :: tool
  brushSize :: nat
  brushColor :: jsstring
  lastPos :: "real \<times> real"
  canvasRef :: canvas
  containerRef :: container

definition mount :: "jsstring \<Rightarrow> editor" where
  "mount url = \<lparr>imageDataUrl = url, isDrawing = False, tool = Brush, brushSize = 10,
     brushColor = js ''#000000'', lastPos = (0, 0), canvasRef = newCanvas,
     containerRef = \<lparr>style_width = None, style_height = None, backgroundImage = None,
       backgroundSize = None, backgroundRepeat = None, backgroundPosition = None\<rparr>\<rparr>"

text \<open>
  The body of \<^verbatim>\<open>image.onload\<close> in the effect that opens the image. The size of the
  window and of the image are integers below \<open>2\<^sup>3\<^sup>2\<close>, which are doubles as they are; the
  literals \<^verbatim>\<open>0.8\<close> and \<^verbatim>\<open>0.7\<close> and every product and quotient are rounded to a
  double.
\<close>

definition image_onload :: "browser \<Rightarrow> html_image \<Rightarrow> editor \<Rightarrow> editor" where
  "image_onload env img ed =
    (let maxWidth = toDouble (real (innerWidth env) * toDouble 0.8);
         maxHeight = toDouble (real (innerHeight env) * toDouble 0.7);
         width = real (img_width img);
         height = real (img_height img);
         ratio = toDouble (width / height);
         (width, height) =
           (if width > maxWidth then (maxWidth, toDouble (maxWidth / ratio)) else (width, height));
         (width, height) =
           (if height > maxHeight then (toDouble (maxHeight * ratio), maxHeight)
            else (width, height));
         container = containerRef ed;
         canvas = canvasRef ed;
         container = container\<lparr>style_width := Some width\<rparr>;
         container = container\<lparr>style_height := Some height\<rparr>;
         canvas = set_width (toULong width) canvas;
         canvas = set_height (toULong height) canvas;
         container = container\<lparr>backgroundImage := Some (js ''url('' @ imageDataUrl ed @ js '')'')\<rparr>;
         container = container\<lparr>backgroundSize := Some (js ''contain'')\<rparr>;
         container = container\<lparr>backgroundRepeat := Some (js ''no-repeat'')\<rparr>;
         container = container\<lparr>backgroundPosition := Some (js ''center'')\<rparr>;
         canvas = clearRect 0 0 width height canvas
     in ed\<lparr>canvasRef := canvas, containerRef := container\<rparr>)"

text \<open>
  The effect: without a 2D context it does nothing, and it sets no \<^verbatim>\<open>onerror\<close>, so an
  image that does not decode leaves the editor as it is.
\<close>

definition openImage :: "browser \<Rightarrow> editor \<Rightarrow> editor" where
  "openImage env ed =
     (if context2d env then
        (case decodeImage env (imageDataUrl ed) of
           Some img \<Rightarrow> image_onload env img ed
         | None \<Rightarrow> ed)
      else ed)"

definition startDrawing :: "real \<times> real \<Rightarrow> editor \<Rightarrow> editor" where
  "startDrawing pos ed = ed\<lparr>lastPos := pos, isDrawing := True\<rparr>"

definition draw :: "browser \<Rightarrow> real \<times> real \<Rightarrow> editor \<Rightarrow> editor" where
  "draw env currentPos ed =
     (if \<not> isDrawing ed then ed
      else if context2d env then
        (let context = canvasRef ed;
             context = beginPath context;
             context = moveTo (fst (lastPos ed)) (snd (lastPos ed)) context;
             context = lineTo (fst currentPos) (snd currentPos) context;
             context = context\<lparr>lineWidth := real (brushSize ed)\<rparr>;
             context = context\<lparr>lineCap := CapRound\<rparr>;
             context = context\<lparr>lineJoin := JoinRound\<rparr>;
             context =
               (if tool ed = Brush
                then context\<lparr>globalCompositeOperation := SourceOver,
                       strokeStyle := Color (brushColor ed)\<rparr>
                else context\<lparr>globalCompositeOperation := DestinationOut\<rparr>);
             context = stroke context;
             context = closePath context
         in ed\<lparr>canvasRef := context, lastPos := currentPos\<rparr>)
      else ed)"

definition stopDrawing :: "browser \<Rightarrow> editor \<Rightarrow> editor" where
  "stopDrawing env ed =
     (if isDrawing ed then
        (let ed = (if context2d env
                   then ed\<lparr>canvasRef := (canvasRef ed)\<lparr>globalCompositeOperation := SourceOver\<rparr>\<rparr>
                   else ed)
         in ed\<lparr>isDrawing := False\<rparr>)
      else ed)"

text \<open>
  \<^verbatim>\<open>handleSave\<close> yields the argument \<^verbatim>\<open>onSave\<close> is called with, or \<open>None\<close> when no
  callback is called; it changes nothing in the component. The argument is the second
  piece of the data URL split at commas (\<open>None\<close> were it \<^verbatim>\<open>undefined\<close>).
\<close>

definition COMMA :: nat where
  "COMMA = 44"

definition handleSave :: "browser \<Rightarrow> heap \<Rightarrow> editor \<Rightarrow> jsstring option option \<times> heap" where
  "handleSave env doc ed =
     (let (finalCanvas, doc) = createElement_canvas doc;
          drawingCanvas = canvasRef ed
      in if context2d env then
           (let width = width drawingCanvas;
                height = height drawingCanvas;
                doc = doc[finalCanvas := set_width width (doc ! finalCanvas)];
                doc = doc[finalCanvas := set_height height (doc ! finalCanvas)]
            in case decodeImage env (imageDataUrl ed) of
                 None \<Rightarrow> (None, doc)
               | Some img \<Rightarrow>
                   (let doc = doc[finalCanvas :=
                                drawImageScaled img 0 0 (real width) (real height) (doc ! finalCanvas)];
                        doc = doc[finalCanvas :=
                                drawCanvasScaled drawingCanvas 0 0 (real width) (real height)
                                  (doc ! finalCanvas)];
                        dataUrl = index_js (split_js COMMA (toDataURL env (doc ! finalCanvas))) 1
                    in (Some dataUrl, doc)))
         else (None, doc))"

text \<open>The events of an editing session, and the handler each one runs.\<close>

datatype event =
    ImageLoad
  | MouseDown "real \<times> real"
  | MouseMove "real \<times> real"
  | MouseUp
  | MouseLeave
  | SetTool tool
  | SetBrushColor jsstring
  | SetBrushSize nat

fun handle :: "browser \<Rightarrow> editor \<Rightarrow> event \<Rightarrow> editor" where
  "handle env ed ImageLoad = openImage env ed"
| "handle env ed (MouseDown pos) = startDrawing pos ed"
| "handle env ed (MouseMove pos) = draw env pos ed"
| "handle env ed MouseUp = stopDrawing env ed"
| "handle env ed MouseLeave = stopDrawing env ed"
| "handle env ed (SetTool t) = ed\<lparr>tool := t\<rparr>"
| "handle env ed (SetBrushColor c) = ed\<lparr>brushColor := c\<rparr>"
| "handle env ed (SetBrushSize n) = ed\<lparr>brushSize := n\<rparr>"

definition session :: "browser \<Rightarrow> jsstring \<Rightarrow> event list \<Rightarrow> editor" where
  "session env url events = foldl (handle env) (mount url) events"

text \<open>
  What holds of the editor between the events: the compositing mode is normal whenever
  no stroke is active, and always when there is no context to set it on.
\<close>

definition normal_when_idle :: "browser \<Rightarrow> editor \<Rightarrow> bool" where
  "normal_when_idle env ed \<longleftrightarrow>
     (\<not> isDrawing ed \<or> \<not> context2d env
        \<longrightarrow> globalCompositeOperation (canvasRef ed) = SourceOver)"

section \<open>An example environment\<close>

text \<open>
  A fixed-pitch font: every code unit advances by the fraction \<open>r\<close> of the font size.
\<close>

definition fixedPitch :: "real \<Rightarrow> css_font \<Rightarrow> jsstring \<Rightarrow> real" where
  "fixedPitch r f s = r * size_px f * real (length s)"

text \<open>
  A decoder that knows one URL, an encoder that returns nothing, and a browser made of
  them whose window is \<open>w\<close> by \<open>h\<close>.
\<close>

definition decodesOnly :: "jsstring \<Rightarrow> html_image \<Rightarrow> jsstring \<Rightarrow> html_image option" where
  "decodesOnly url img u = (if u = url then Some img else None)"

definition noPng :: "nat \<Rightarrow> nat \<Rightarrow> draw_op list \<Rightarrow> jsstring" where
  "noPng w h ops = []"

definition exampleBrowser :: "html_image \<Rightarrow> nat \<Rightarrow> nat \<Rightarrow> browser" where
  "exampleBrowser img w h =
     \<lparr>measureWidth = fixedPitch (1 / 2), decodeImage = decodesOnly (img_src img) img,
      context2d = True, encodePng = noPng, innerWidth = w, innerHeight = h\<rparr>"

definition exampleImage :: "nat \<Rightarrow> nat \<Rightarrow> html_image" where
  "exampleImage w h = \<lparr>img_width = w, img_height = h, img_src = js ''data:image/png;base64,AAAA''\<rparr>"

definition exampleCaption :: "jsstring \<Rightarrow> structuredText" where
  "exampleCaption h = \<lparr>tag = js ''DICA'', headline = h, cta = js ''SAIBA MAIS''\<rparr>"

definition examplePost :: "int \<Rightarrow> post" where
  "examplePost i = \<lparr>post_id = js ''0a1b2c3d-4e5f'',
     texts = [exampleCaption (js ''Um''), exampleCaption (js ''Dois''), exampleCaption (js ''Tres'')],
     activeTextIndex = i, post_image = js ''AAAA'', imageMimeType = js ''image/png''\<rparr>"

section \<open>Word wrapping\<close>

subsection \<open>Splitting and joining\<close>

lemma split_js_nonempty: "split_js sep s \<noteq> []"
  by (induction s) (auto split: list.splits)

lemma joinsp_Cons: "joinsp (w # ws) = w @ SP # joinsp ws"
  by (simp add: joinsp_def)

lemma joinsp_append: "joinsp (xs @ ys) = joinsp xs @ joinsp ys"
  by (simp add: joinsp_def)

lemma joinsp_split_js: "joinsp (split_js SP s) = s @ [SP]"
proof (induction s)
  case Nil
  show ?case by (simp add: joinsp_def)
next
  case (Cons c cs)
  show ?case
  proof (cases "c = SP")
    case True
    with Cons show ?thesis by (simp add: joinsp_Cons)
  next
    case False
    obtain w ws where ws: "split_js SP cs = w # ws"
      using split_js_nonempty [of SP cs] by (cases "split_js SP cs") auto
    with Cons False show ?thesis by (simp add: joinsp_Cons)
  qed
qed

subsection \<open>The loop of the source computes the word groups\<close>

lemma wrapGroups_from_nonempty: "wrapGroups_from m maxW cur ws \<noteq> []"
  by (induction ws arbitrary: cur) auto

lemma wrapText_loop_groups:
  assumes "0 < n" and "n \<le> length words"
  shows "wrapText_loop m maxW words n (joinsp cur) lines =
           (joinsp (last (wrapGroups_from m maxW cur (drop n words))),
            lines @ map (\<lambda>g. trim (joinsp g)) (butlast (wrapGroups_from m maxW cur (drop n words))))"
  using assms
proof (induction "length words - n" arbitrary: n cur lines)
  case 0
  then have "n = length words" by simp
  then show ?case by (subst wrapText_loop.simps) simp
next
  case (Suc d)
  then have lt: "n < length words" by simp
  then have dr: "drop n words = words ! n # drop (Suc n) words"
    by (simp add: Cons_nth_drop_Suc)
  have d: "d = length words - Suc n" using Suc.hyps(2) by simp
  have le: "Suc n \<le> length words" using lt by simp
  note IH = Suc.hyps(1) [OF d _ le]
  let ?w = "words ! n"
  have test: "joinsp cur @ ?w @ [SP] = joinsp (cur @ [?w])"
    by (simp add: joinsp_def)
  show ?case
  proof (cases "m (joinsp (cur @ [?w])) > maxW")
    case True
    have "wrapText_loop m maxW words n (joinsp cur) lines =
            wrapText_loop m maxW words (Suc n) (joinsp [?w]) (lines @ [trim (joinsp cur)])"
      using True lt Suc.prems(1)
      by (subst wrapText_loop.simps) (simp add: Let_def test joinsp_def)
    also have "\<dots> = (joinsp (last (wrapGroups_from m maxW [?w] (drop (Suc n) words))),
        (lines @ [trim (joinsp cur)]) @
          map (\<lambda>g. trim (joinsp g)) (butlast (wrapGroups_from m maxW [?w] (drop (Suc n) words))))"
      by (rule IH) simp
    finally show ?thesis
      using True by (simp add: dr wrapGroups_from_nonempty)
  next
    case False
    have "wrapText_loop m maxW words n (joinsp cur) lines =
            wrapText_loop m maxW words (Suc n) (joinsp (cur @ [?w])) lines"
      using False lt by (subst wrapText_loop.simps) (simp add: Let_def test)
    also have "\<dots> = (joinsp (last (wrapGroups_from m maxW (cur @ [?w]) (drop (Suc n) words))),
        lines @ map (\<lambda>g. trim (joinsp g))
          (butlast (wrapGroups_from m maxW (cur @ [?w]) (drop (Suc n) words))))"
      by (rule IH) simp
    finally show ?thesis
      using False by (simp add: dr)
  qed
qed

lemma wrapText_groups:
  "wrapText m t maxW = map (\<lambda>g. trim (joinsp g)) (wrapGroups m maxW (split_js SP t))"
proof -
  obtain w ws where ws: "split_js SP t = w # ws"
    using split_js_nonempty [of SP t] by (cases "split_js SP t") auto
  let ?G = "wrapGroups_from m maxW [w] ws"
  have first: "wrapText_loop m maxW (w # ws) 0 [] [] =
      wrapText_loop m maxW (w # ws) (Suc 0) (joinsp [w]) []"
    by (subst wrapText_loop.simps) (simp add: joinsp_def)
  have rest: "wrapText_loop m maxW (w # ws) (Suc 0) (joinsp [w]) [] =
      (joinsp (last ?G), map (\<lambda>g. trim (joinsp g)) (butlast ?G))"
    using wrapText_loop_groups [of "Suc 0" "w # ws" m maxW "[w]" "[]"] by simp
  have "?G \<noteq> []" by (rule wrapGroups_from_nonempty)
  then have "butlast ?G @ [last ?G] = ?G" by simp
  then have "map (\<lambda>g. trim (joinsp g)) (butlast ?G @ [last ?G]) = map (\<lambda>g. trim (joinsp g)) ?G"
    by (rule arg_cong)
  then show ?thesis
    by (simp add: wrapText_def ws first rest wrapGroups_def)
qed

subsection \<open>What the word groups are\<close>

lemma concat_wrapGroups_from: "concat (wrapGroups_from m maxW cur ws) = cur @ ws"
  by (induction ws arbitrary: cur) auto

lemma wrapGroups_from_no_empty:
  "cur \<noteq> [] \<Longrightarrow> [] \<notin> set (wrapGroups_from m maxW cur ws)"
  by (induction ws arbitrary: cur) auto

lemma hd_wrapGroups_from:
  "cur \<noteq> [] \<Longrightarrow> hd (hd (wrapGroups_from m maxW cur ws)) = hd cur"
  by (induction ws arbitrary: cur) auto

lemma fits_single: "fits m maxW [w]"
  by (simp add: fits_def)

lemma fits_snoc:
  assumes "fits m maxW cur" and "m (joinsp (cur @ [w])) \<le> maxW"
  shows "fits m maxW (cur @ [w])"
  unfolding fits_def
proof
  fix k assume k: "k \<in> {2..length (cur @ [w])}"
  show "m (joinsp (take k (cur @ [w]))) \<le> maxW"
  proof (cases "k \<le> length cur")
    case True
    with k assms(1) show ?thesis by (simp add: fits_def)
  next
    case False
    with k have "take k (cur @ [w]) = cur @ [w]" by simp
    with assms(2) show ?thesis by simp
  qed
qed

lemma greedy_wrapGroups_from:
  "cur \<noteq> [] \<Longrightarrow> fits m maxW cur \<Longrightarrow> greedy_groups m maxW (wrapGroups_from m maxW cur ws)"
proof (induction ws arbitrary: cur)
  case Nil
  then show ?case by simp
next
  case (Cons w ws)
  show ?case
  proof (cases "m (joinsp (cur @ [w])) > maxW")
    case True
    obtain h rest where G: "wrapGroups_from m maxW [w] ws = h # rest"
      using wrapGroups_from_nonempty [of m maxW "[w]" ws]
      by (cases "wrapGroups_from m maxW [w] ws") auto
    have "hd h = w"
      using hd_wrapGroups_from [of "[w]" m maxW ws] G by simp
    moreover have "greedy_groups m maxW (h # rest)"
      using Cons.IH [of "[w]"] G by (simp add: fits_single)
    ultimately show ?thesis
      using True Cons.prems G by simp
  next
    case False
    then have "fits m maxW (cur @ [w])"
      using Cons.prems by (intro fits_snoc) simp_all
    with False Cons.IH [of "cur @ [w]"] show ?thesis by simp
  qed
qed

lemma greedy_groups_fits: "greedy_groups m maxW gl \<Longrightarrow> g \<in> set gl \<Longrightarrow> fits m maxW g"
  by (induction m maxW gl rule: greedy_groups.induct) auto

lemma wrapGroups_from_one_line:
  assumes "\<forall>s t. m s \<le> m (s @ t)" and "m (joinsp (cur @ ws)) \<le> maxW"
  shows "wrapGroups_from m maxW cur ws = [cur @ ws]"
  using assms(2)
proof (induction ws arbitrary: cur)
  case Nil
  then show ?case by simp
next
  case (Cons w ws)
  have "m (joinsp (cur @ [w])) \<le> m (joinsp (cur @ [w]) @ joinsp ws)"
    using assms(1) by blast
  also have "\<dots> = m (joinsp (cur @ w # ws))"
    by (simp add: joinsp_def)
  finally have "m (joinsp (cur @ [w])) \<le> maxW"
    using Cons.prems by simp
  moreover have "wrapGroups_from m maxW (cur @ [w]) ws = [(cur @ [w]) @ ws]"
    using Cons.prems by (intro Cons.IH) simp
  ultimately show ?case by simp
qed

text \<open>Under a monotone measure, a word of a line of two or more words is within the width.\<close>

lemma fits_word_le:
  assumes mono: "monotone_measure m"
    and fit: "fits m maxW g" and p: "p < length g" and two: "2 \<le> length g"
  shows "m (g ! p) \<le> maxW"
proof -
  define k where "k = max 2 (Suc p)"
  have k: "k \<in> {2..length g}" and pk: "p < k"
    using p two by (auto simp: k_def)
  have "take k g = take p (take k g) @ (take k g) ! p # drop (Suc p) (take k g)"
    using pk k by (intro id_take_nth_drop) simp
  then have "take k g = take p g @ g ! p # drop (Suc p) (take k g)"
    using pk by (simp add: min_def)
  then have "joinsp (take k g) =
      joinsp (take p g) @ (g ! p @ (SP # joinsp (drop (Suc p) (take k g))))"
    by (metis joinsp_append joinsp_Cons)
  moreover have "m (g ! p) \<le> m (g ! p @ (SP # joinsp (drop (Suc p) (take k g))))"
    using mono by (simp add: monotone_measure_def)
  moreover have "m (g ! p @ (SP # joinsp (drop (Suc p) (take k g))))
      \<le> m (joinsp (take p g) @ (g ! p @ (SP # joinsp (drop (Suc p) (take k g)))))"
    using mono unfolding monotone_measure_def by blast
  moreover have "m (joinsp (take k g)) \<le> maxW"
    using fit k by (simp add: fits_def)
  ultimately show ?thesis by simp
qed

lemma overlong_word_alone:
  assumes mono: "monotone_measure m"
    and fit: "\<forall>g \<in> set gl. fits m maxW g"
    and k: "k < length (concat gl)" and long: "m (concat gl ! k) > maxW"
  shows "\<exists>j < length gl. gl ! j = [concat gl ! k] \<and> length (concat (take j gl)) = k"
  using fit k long
proof (induction gl arbitrary: k)
  case Nil
  then show ?case by simp
next
  case (Cons g rest)
  show ?case
  proof (cases "k < length g")
    case True
    then have w: "concat (g # rest) ! k = g ! k" by (simp add: nth_append)
    have "\<not> 2 \<le> length g"
      using fits_word_le [OF mono _ True, of maxW] Cons.prems(1,3) w by auto
    with True have "length g = 1" and "k = 0" by auto
    then have "g = [g ! k]"
      by (cases g) auto
    with w \<open>k = 0\<close> have "(g # rest) ! 0 = [concat (g # rest) ! k] \<and> length (concat (take 0 (g # rest))) = k"
      by simp
    then show ?thesis by blast
  next
    case False
    then have w: "concat (g # rest) ! k = concat rest ! (k - length g)"
      by (simp add: nth_append)
    have "\<exists>j < length rest. rest ! j = [concat rest ! (k - length g)]
        \<and> length (concat (take j rest)) = k - length g"
      using Cons.prems False w by (intro Cons.IH) auto
    then obtain j where j: "j < length rest" "rest ! j = [concat rest ! (k - length g)]"
      "length (concat (take j rest)) = k - length g" by blast
    with False w have "Suc j < length (g # rest) \<and> (g # rest) ! Suc j = [concat (g # rest) ! k]
        \<and> length (concat (take (Suc j) (g # rest))) = k"
      by simp
    then show ?thesis by blast
  qed
qed

subsection \<open>Greedy wrapping\<close>

text \<open>
  C1 (as amended). For every headline and every text measure, \<open>wrapText\<close> cuts the
  words of the headline (its pieces between single spaces) into consecutive groups, none
  of them empty and no word split or dropped, and returns one trimmed line per group. The
  groups are greedy: a word joined a line only when the line so extended, measured with
  its trailing space, stayed within \<open>maxW\<close>, and a line was closed only when the next
  word would have taken it beyond \<open>maxW\<close>. Under a monotone measure, a word that is
  itself wider than \<open>maxW\<close> is the only word of its line, and a headline that measures
  within \<open>maxW\<close> with the one trailing space the code appends is a single line.
\<close>

theorem wrapText_greedy:
  "\<exists>gs. concat gs = split_js SP t \<and> [] \<notin> set gs
     \<and> wrapText m t maxW = map (\<lambda>g. trim (joinsp g)) gs
     \<and> greedy_groups m maxW gs
     \<and> (monotone_measure m \<longrightarrow>
          (\<forall>k < length (split_js SP t). m (split_js SP t ! k) > maxW \<longrightarrow>
             (\<exists>j < length gs. gs ! j = [split_js SP t ! k] \<and> length (concat (take j gs)) = k))
          \<and> (m (t @ [SP]) \<le> maxW \<longrightarrow> gs = [split_js SP t]))"
proof -
  obtain w ws where ws: "split_js SP t = w # ws"
    using split_js_nonempty [of SP t] by (cases "split_js SP t") auto
  define gs where "gs = wrapGroups_from m maxW [w] ws"
  have groups: "wrapGroups m maxW (split_js SP t) = gs"
    by (simp add: wrapGroups_def ws gs_def)
  have cat: "concat gs = split_js SP t"
    by (simp add: gs_def ws concat_wrapGroups_from)
  have ne: "[] \<notin> set gs"
    unfolding gs_def by (rule wrapGroups_from_no_empty) simp
  have lines: "wrapText m t maxW = map (\<lambda>g. trim (joinsp g)) gs"
    using wrapText_groups [of m t maxW] groups by simp
  have greedy: "greedy_groups m maxW gs"
    unfolding gs_def by (rule greedy_wrapGroups_from) (simp_all add: fits_single)
  have alone: "\<exists>j < length gs. gs ! j = [split_js SP t ! k] \<and> length (concat (take j gs)) = k"
    if "monotone_measure m" "k < length (split_js SP t)" "m (split_js SP t ! k) > maxW" for k
  proof -
    have "\<forall>g \<in> set gs. fits m maxW g"
      using greedy greedy_groups_fits by blast
    from overlong_word_alone [OF that(1) this, of k] that(2,3) show ?thesis
      by (simp add: cat)
  qed
  have one: "gs = [split_js SP t]" if "monotone_measure m" "m (t @ [SP]) \<le> maxW"
  proof -
    have "m (joinsp ([w] @ ws)) \<le> maxW"
      using that(2) joinsp_split_js [of t] by (simp add: ws)
    moreover have "\<forall>s t. m s \<le> m (s @ t)"
      using that(1) by (simp add: monotone_measure_def)
    ultimately have "wrapGroups_from m maxW [w] ws = [[w] @ ws]"
      by (rule wrapGroups_from_one_line [rotated])
    then show ?thesis by (simp add: gs_def ws)
  qed
  from cat ne lines greedy alone one show ?thesis by blast
qed

lemma monotone_fixedPitch: "0 \<le> r \<Longrightarrow> 0 \<le> size_px f \<Longrightarrow> monotone_measure (fixedPitch r f)"
  by (simp add: monotone_measure_def fixedPitch_def mult_left_mono)

lemmas js_eval = js_def SP_def trim_def isWhiteSpace_def fixedPitch_def

theorem wrapText_greedy_witness:
  "monotone_measure (fixedPitch (1 / 2) \<lparr>weight = 900, size_px = 32\<rparr>)
   \<and> fixedPitch (1 / 2) \<lparr>weight = 900, size_px = 32\<rparr> (js ''ab cd'' @ [SP]) \<le> 100
   \<and> wrapText (fixedPitch (1 / 2) \<lparr>weight = 900, size_px = 32\<rparr>) (js ''ab cd'') 100 = [js ''ab cd'']
   \<and> fixedPitch (1 / 2) \<lparr>weight = 900, size_px = 32\<rparr> (split_js SP (js ''ab extraordinary cd'') ! 1) > 100
   \<and> wrapText (fixedPitch (1 / 2) \<lparr>weight = 900, size_px = 32\<rparr>) (js ''ab extraordinary cd'') 100
        = [js ''ab'', js ''extraordinary'', js ''cd'']"
proof -
  let ?m = "fixedPitch (1 / 2) \<lparr>weight = 900, size_px = 32\<rparr>"
  have mono: "monotone_measure ?m"
    by (rule monotone_fixedPitch) simp_all
  have fit: "?m (js ''ab cd'' @ [SP]) \<le> 100"
    by (simp add: js_eval)
  obtain gs where gs: "wrapText ?m (js ''ab cd'') 100 = map (\<lambda>g. trim (joinsp g)) gs"
      "monotone_measure ?m \<longrightarrow> (?m (js ''ab cd'' @ [SP]) \<le> 100 \<longrightarrow> gs = [split_js SP (js ''ab cd'')])"
    using wrapText_greedy [of "js ''ab cd''" ?m 100] by blast
  with mono fit have "wrapText ?m (js ''ab cd'') 100 = [trim (joinsp (split_js SP (js ''ab cd'')))]"
    by simp
  then have one: "wrapText ?m (js ''ab cd'') 100 = [js ''ab cd'']"
    by (simp add: js_eval joinsp_def)
  have long: "?m (split_js SP (js ''ab extraordinary cd'') ! 1) > 100"
    by (simp add: js_eval)
  have three: "wrapText ?m (js ''ab extraordinary cd'') 100 = [js ''ab'', js ''extraordinary'', js ''cd'']"
    by (simp add: wrapText_def wrapText_loop.simps js_eval Let_def)
  from mono fit one long three show ?thesis by blast
qed

theorem wrapText_fitting_headline_counterexample:
  "fixedPitch (1 / 2) \<lparr>weight = 900, size_px = 32\<rparr> (js ''ab cd'') \<le> 84
   \<and> wrapText (fixedPitch (1 / 2) \<lparr>weight = 900, size_px = 32\<rparr>) (js ''ab cd'') 84 = [js ''ab'', js ''cd'']"
  by (simp add: wrapText_def wrapText_loop.simps js_eval Let_def)

section \<open>The caption compositor\<close>



subsection \<open>The drawing operations\<close>

lemma measureText_font: "measureText env c = measureWidth env (font c)"
  by (rule ext) (simp add: measureText_def)

lemma foldl_fillText:
  "foldl (\<lambda>c i. fillText (t i) x (y i) c) c is =
     c\<lparr>bitmap := bitmap c @
        map (\<lambda>i. FillText (globalCompositeOperation c) (fillStyle c) (font c) (textAlign c)
                    (textBaseline c) (t i) x (y i)) is\<rparr>"
  by (induction "is" arbitrary: c) (simp_all add: fillText_def)


lemma set_size_simps:
  "width (set_width w c) = w" "height (set_width w c) = height c"
  "width (set_height h c) = width c" "height (set_height h c) = h"
  "font (set_height h c) = font newCanvas" "fillStyle (set_height h c) = fillStyle newCanvas"
  "textAlign (set_height h c) = textAlign newCanvas" "textBaseline (set_height h c) = textBaseline newCanvas"
  "globalCompositeOperation (set_height h c) = SourceOver"
  "path (set_height h c) = []" "bitmap (set_height h c) = []"
  "globalCompositeOperation (set_width w c) = SourceOver"
  "path (set_width w c) = []" "bitmap (set_width w c) = []"
  by (simp_all add: set_width_def set_height_def newCanvas_def)

lemma drawImage_simps:
  "width (drawImage img x y c) = width c"
  "height (drawImage img x y c) = height c"
  "font (drawImage img x y c) = font c"
  "fillStyle (drawImage img x y c) = fillStyle c"
  "textAlign (drawImage img x y c) = textAlign c"
  "textBaseline (drawImage img x y c) = textBaseline c"
  "globalCompositeOperation (drawImage img x y c) = globalCompositeOperation c"
  "path (drawImage img x y c) = path c"
  "bitmap (drawImage img x y c) = bitmap c @ [DrawImage (globalCompositeOperation c) img x y]"
  by (simp_all add: drawImage_def)

lemma fillRect_simps:
  "width (fillRect x y w h c) = width c"
  "height (fillRect x y w h c) = height c"
  "font (fillRect x y w h c) = font c"
  "fillStyle (fillRect x y w h c) = fillStyle c"
  "textAlign (fillRect x y w h c) = textAlign c"
  "textBaseline (fillRect x y w h c) = textBaseline c"
  "globalCompositeOperation (fillRect x y w h c) = globalCompositeOperation c"
  "path (fillRect x y w h c) = path c"
  "bitmap (fillRect x y w h c) = bitmap c @ [FillRect (globalCompositeOperation c) (fillStyle c) x y w h]"
  by (simp_all add: fillRect_def)

lemma beginPath_simps:
  "width (beginPath c) = width c"
  "height (beginPath c) = height c"
  "font (beginPath c) = font c"
  "fillStyle (beginPath c) = fillStyle c"
  "textAlign (beginPath c) = textAlign c"
  "textBaseline (beginPath c) = textBaseline c"
  "globalCompositeOperation (beginPath c) = globalCompositeOperation c"
  "bitmap (beginPath c) = bitmap c"
  "path (beginPath c) = []"
  by (simp_all add: beginPath_def)

lemma roundRect_simps:
  "width (roundRect x y w h r c) = width c"
  "height (roundRect x y w h r c) = height c"
  "font (roundRect x y w h r c) = font c"
  "fillStyle (roundRect x y w h r c) = fillStyle c"
  "textAlign (roundRect x y w h r c) = textAlign c"
  "textBaseline (roundRect x y w h r c) = textBaseline c"
  "globalCompositeOperation (roundRect x y w h r c) = globalCompositeOperation c"
  "bitmap (roundRect x y w h r c) = bitmap c"
  "path (roundRect x y w h r c) = path c @ [RoundRect x y w h r]"
  by (simp_all add: roundRect_def)

lemma fill_simps:
  "width (fill c) = width c"
  "height (fill c) = height c"
  "font (fill c) = font c"
  "fillStyle (fill c) = fillStyle c"
  "textAlign (fill c) = textAlign c"
  "textBaseline (fill c) = textBaseline c"
  "globalCompositeOperation (fill c) = globalCompositeOperation c"
  "path (fill c) = path c"
  "bitmap (fill c) = bitmap c @ [Fill (globalCompositeOperation c) (fillStyle c) (path c)]"
  by (simp_all add: fill_def)

lemma fillText_simps:
  "width (fillText t x y c) = width c"
  "height (fillText t x y c) = height c"
  "font (fillText t x y c) = font c"
  "fillStyle (fillText t x y c) = fillStyle c"
  "textAlign (fillText t x y c) = textAlign c"
  "textBaseline (fillText t x y c) = textBaseline c"
  "globalCompositeOperation (fillText t x y c) = globalCompositeOperation c"
  "path (fillText t x y c) = path c"
  "bitmap (fillText t x y c) = bitmap c @ [FillText (globalCompositeOperation c) (fillStyle c) (font c) (textAlign c) (textBaseline c) t x y]"
  by (simp_all add: fillText_def)

lemma foldl_fillText_simps:
  "width (foldl (\<lambda>c i. fillText (t i) x (y i) c) c is) = width c"
  "height (foldl (\<lambda>c i. fillText (t i) x (y i) c) c is) = height c"
  "font (foldl (\<lambda>c i. fillText (t i) x (y i) c) c is) = font c"
  "fillStyle (foldl (\<lambda>c i. fillText (t i) x (y i) c) c is) = fillStyle c"
  "textAlign (foldl (\<lambda>c i. fillText (t i) x (y i) c) c is) = textAlign c"
  "textBaseline (foldl (\<lambda>c i. fillText (t i) x (y i) c) c is) = textBaseline c"
  "globalCompositeOperation (foldl (\<lambda>c i. fillText (t i) x (y i) c) c is) = globalCompositeOperation c"
  "path (foldl (\<lambda>c i. fillText (t i) x (y i) c) c is) = path c"
  "bitmap (foldl (\<lambda>c i. fillText (t i) x (y i) c) c is) =
     bitmap c @ map (\<lambda>i. FillText (globalCompositeOperation c) (fillStyle c) (font c) (textAlign c)
                    (textBaseline c) (t i) x (y i)) is"
  by (simp_all add: foldl_fillText)

lemmas canvas_simps = set_size_simps drawImage_simps fillRect_simps beginPath_simps roundRect_simps
  fill_simps fillText_simps foldl_fillText_simps

subsection \<open>What compose draws\<close>

lemma mergeTextAndImage_onload_bitmap:
  "bitmap (mergeTextAndImage_onload env canvas img text) =
    (let W = real (img_width img);
         H = real (img_height img);
         padding = W * 0.08;
         headlineFont = \<lparr>weight = 900, size_px = max 32 (Math_round (W / 15))\<rparr>;
         lines = wrapText (measureWidth env headlineFont) (headline text) (W - padding * 2);
         lineHeight = size_px headlineFont * 1.1;
         ctaFont = \<lparr>weight = 700, size_px = max 18 (Math_round (W / 30))\<rparr>;
         ctaHeight = size_px ctaFont * 1.6;
         ctaY = H - padding;
         ctaBgPadding = size_px ctaFont * 0.4;
         headlineY = ctaY - ctaHeight - padding * 0.5;
         tagY = headlineY - real (length lines) * lineHeight - padding * 0.5;
         tagFont = \<lparr>weight = 600, size_px = max 16 (Math_round (W / 35))\<rparr>;
         tagHeight = size_px tagFont * 1.8
     in [DrawImage SourceOver img 0 0,
         FillRect SourceOver
           (GradientStyle (LinearGradient 0 (H * 0.4) 0 H
              [(0, js ''rgba(0, 0, 0, 0)''), (1, js ''rgba(0, 0, 0, 0.8)'')])) 0 0 W H,
         Fill SourceOver (Color (js ''#DC2626''))
           [RoundRect padding (ctaY - ctaHeight + ctaBgPadding / 2)
              (measureWidth env ctaFont (cta text) + ctaBgPadding * 2) ctaHeight 8],
         FillText SourceOver (Color (js ''white'')) ctaFont AlignLeft Middle (cta text)
           (padding + ctaBgPadding) (ctaY - ctaHeight / 2 + ctaBgPadding / 2)]
        @ map (\<lambda>i. FillText SourceOver (Color (js ''white'')) headlineFont AlignLeft Bottom
                      (lines ! i) padding (headlineY - real (length lines - 1 - i) * lineHeight))
            [0..<length lines]
        @ [Fill SourceOver (Color (js ''#F97316''))
             [RoundRect padding (tagY - tagHeight)
                (measureWidth env tagFont (tag text) + size_px tagFont * 1.5) tagHeight 8],
           FillText SourceOver (Color (js ''white'')) tagFont AlignLeft Middle (tag text)
             (padding + size_px tagFont * 0.75) (tagY - tagHeight / 2)])"
  by (simp add: mergeTextAndImage_onload_def Let_def canvas_simps measureText_font createLinearGradient_def)

lemma mergeTextAndImage_resolves:
  assumes "context2d env"
    and "decodeImage env (js ''data:'' @ mimeType @ js '';base64,'' @ base64Image) = Some img"
  shows "mergeTextAndImage env doc base64Image mimeType text =
           (Inr (toDataURL env (mergeTextAndImage_onload env newCanvas img text)),
            doc @ [mergeTextAndImage_onload env newCanvas img text])"
  using assms by (simp add: mergeTextAndImage_def createElement_canvas_def)

lemma mergeTextAndImage_rejects:
  assumes "decodeImage env (js ''data:'' @ mimeType @ js '';base64,'' @ base64Image) = None"
  shows "mergeTextAndImage env doc base64Image mimeType text =
           (Inl (if context2d env then ImageError else NoCanvasContext), doc @ [newCanvas])"
  using assms by (simp add: mergeTextAndImage_def createElement_canvas_def)

text \<open>
  C2 (as amended). The CTA is drawn in weight 700 at size
  \<open>max 18 (round (width / 30))\<close>. Its pill is a rounded rectangle of corner radius 8,
  \<open>1.6 \<times> fontSize\<close> high and as wide as the measured text plus \<open>0.4 \<times> fontSize\<close> on
  each side, and its bottom edge is at \<open>height - padding + 0.2 \<times> fontSize\<close>; the text is
  centred on the middle of the pill.
\<close>

theorem cta_pill:
  assumes "context2d env"
    and "decodeImage env (js ''data:'' @ mimeType @ js '';base64,'' @ base64Image) = Some img"
  shows "\<exists>c. mergeTextAndImage env doc base64Image mimeType text = (Inr (toDataURL env c), doc @ [c])
     \<and> (let W = real (img_width img);
             H = real (img_height img);
             padding = W * 0.08;
             fontSize = max 18 (Math_round (W / 30));
             ctaFont = \<lparr>weight = 700, size_px = fontSize\<rparr>;
             textWidth = measureWidth env ctaFont (cta text)
         in (\<exists>y. bitmap c ! 2 =
                  Fill SourceOver (Color (js ''#DC2626''))
                    [RoundRect padding y (textWidth + 2 * (0.4 * fontSize)) (1.6 * fontSize) 8]
                \<and> y + 1.6 * fontSize = H - padding + 0.2 * fontSize)
            \<and> bitmap c ! 3 =
                  FillText SourceOver (Color (js ''white'')) ctaFont AlignLeft Middle (cta text)
                    (padding + 0.4 * fontSize) (H - padding - 0.6 * fontSize))"
proof -
  let ?c = "mergeTextAndImage_onload env newCanvas img text"
  have "mergeTextAndImage env doc base64Image mimeType text = (Inr (toDataURL env ?c), doc @ [?c])"
    using assms by (rule mergeTextAndImage_resolves)
  moreover have "let W = real (img_width img);
             H = real (img_height img);
             padding = W * 0.08;
             fontSize = max 18 (Math_round (W / 30));
             ctaFont = \<lparr>weight = 700, size_px = fontSize\<rparr>;
             textWidth = measureWidth env ctaFont (cta text)
         in (\<exists>y. bitmap ?c ! 2 =
                  Fill SourceOver (Color (js ''#DC2626''))
                    [RoundRect padding y (textWidth + 2 * (0.4 * fontSize)) (1.6 * fontSize) 8]
                \<and> y + 1.6 * fontSize = H - padding + 0.2 * fontSize)
            \<and> bitmap ?c ! 3 =
                  FillText SourceOver (Color (js ''white'')) ctaFont AlignLeft Middle (cta text)
                    (padding + 0.4 * fontSize) (H - padding - 0.6 * fontSize)"
    by (simp add: mergeTextAndImage_onload_bitmap Let_def)
  ultimately show ?thesis by blast
qed

lemmas example_eval = exampleBrowser_def exampleImage_def exampleCaption_def decodesOnly_def
  fixedPitch_def Math_round_def

theorem cta_pill_witness:
  "context2d (exampleBrowser (exampleImage 1000 1000) 0 0)
   \<and> decodeImage (exampleBrowser (exampleImage 1000 1000) 0 0)
        (js ''data:'' @ js ''image/png'' @ js '';base64,'' @ js ''AAAA'') = Some (exampleImage 1000 1000)
   \<and> (\<exists>c. mergeTextAndImage (exampleBrowser (exampleImage 1000 1000) 0 0) [] (js ''AAAA'')
               (js ''image/png'') (exampleCaption (js ''Como crescer'')) =
             (Inr (toDataURL (exampleBrowser (exampleImage 1000 1000) 0 0) c), [c])
          \<and> bitmap c ! 2 = Fill SourceOver (Color (js ''#DC2626'')) [RoundRect 80 873.8 191.4 52.8 8]
          \<and> bitmap c ! 3 = FillText SourceOver (Color (js ''white'')) \<lparr>weight = 700, size_px = 33\<rparr>
                AlignLeft Middle (js ''SAIBA MAIS'') 93.2 900.2)"
proof -
  let ?E = "exampleBrowser (exampleImage 1000 1000) 0 0"
  have h1: "context2d ?E"
    by (simp add: exampleBrowser_def)
  have h2: "decodeImage ?E (js ''data:'' @ js ''image/png'' @ js '';base64,'' @ js ''AAAA'')
      = Some (exampleImage 1000 1000)"
    by (simp add: example_eval js_def)
  have fs: "max 18 (Math_round (real (img_width (exampleImage 1000 1000)) / 30)) = 33"
    by (simp add: example_eval)
  have tw: "measureWidth ?E \<lparr>weight = 700, size_px = 33\<rparr> (cta (exampleCaption (js ''Como crescer''))) = 165"
    by (simp add: example_eval js_def)
  obtain c y where c: "mergeTextAndImage ?E [] (js ''AAAA'') (js ''image/png'')
        (exampleCaption (js ''Como crescer'')) = (Inr (toDataURL ?E c), [c])"
    and pill: "bitmap c ! 2 = Fill SourceOver (Color (js ''#DC2626''))
        [RoundRect 80 y 191.4 52.8 8]" "y + 52.8 = 926.6"
    and label: "bitmap c ! 3 = FillText SourceOver (Color (js ''white'')) \<lparr>weight = 700, size_px = 33\<rparr>
        AlignLeft Middle (js ''SAIBA MAIS'') 93.2 900.2"
    using cta_pill [OF h1 h2, of "[]" "exampleCaption (js ''Como crescer'')"]
    unfolding Let_def fs tw by (auto simp: exampleImage_def exampleCaption_def)
  from pill(2) have "y = 873.8" by simp
  with h1 h2 c pill(1) label show ?thesis by blast
qed

theorem cta_pill_counterexample:
  "bitmap (snd (mergeTextAndImage (exampleBrowser (exampleImage 1000 1000) 0 0) [] (js ''AAAA'')
                  (js ''image/png'') (exampleCaption (js ''Como crescer''))) ! 0) ! 2
     = Fill SourceOver (Color (js ''#DC2626'')) [RoundRect 80 873.8 191.4 52.8 8]
   \<and> (873.8::real) + 52.8 \<noteq> 1000 - 80
   \<and> (52.8::real) \<noteq> 33 + 2 * (0.4 * 33)
   \<and> bitmap (snd (mergeTextAndImage (exampleBrowser (exampleImage 1000 1000) 0 0) [] (js ''AAAA'')
                  (js ''image/png'') (exampleCaption (js ''Como crescer''))) ! 0) ! 3
     = FillText SourceOver (Color (js ''white'')) \<lparr>weight = 700, size_px = 33\<rparr>
         AlignLeft Middle (js ''SAIBA MAIS'') 93.2 900.2
   \<and> (33::real) \<noteq> max 18 (1000 / 30)"
proof -
  let ?E = "exampleBrowser (exampleImage 1000 1000) 0 0"
  have h1: "context2d ?E"
    by (simp add: exampleBrowser_def)
  have h2: "decodeImage ?E (js ''data:'' @ js ''image/png'' @ js '';base64,'' @ js ''AAAA'')
      = Some (exampleImage 1000 1000)"
    by (simp add: example_eval js_def)
  have fs: "max 18 (Math_round (real (img_width (exampleImage 1000 1000)) / 30)) = 33"
    by (simp add: example_eval)
  have tw: "measureWidth ?E \<lparr>weight = 700, size_px = 33\<rparr> (cta (exampleCaption (js ''Como crescer''))) = 165"
    by (simp add: example_eval js_def)
  show ?thesis
    unfolding mergeTextAndImage_resolves [OF h1 h2] snd_conv nth_Cons_0 append_Nil
      mergeTextAndImage_onload_bitmap Let_def fs tw
    by (simp add: exampleImage_def exampleCaption_def)
qed


subsection \<open>The empty headline\<close>

lemma wrapText_empty: "wrapText m [] maxW = [[]]"
  by (simp add: wrapText_def wrapText_loop.simps trim_def isWhiteSpace_def SP_def)

text \<open>
  C3 (as amended). For a caption whose headline is the empty string, \<open>wrapText\<close>
  yields one empty line, not none: compose draws that empty line at \<open>headlineY\<close>, and
  the headline block adds one line height, \<open>1.1 \<times> headlineFontSize\<close>, to the position
  of the tag pill, whose bottom edge is at
  \<open>headlineY - 1.1 \<times> headlineFontSize - 0.5 \<times> padding\<close>.
\<close>

theorem empty_headline_one_line:
  assumes "context2d env"
    and "decodeImage env (js ''data:'' @ mimeType @ js '';base64,'' @ base64Image) = Some img"
    and "headline text = []"
  shows "\<exists>c. mergeTextAndImage env doc base64Image mimeType text = (Inr (toDataURL env c), doc @ [c])
     \<and> (let W = real (img_width img);
             H = real (img_height img);
             padding = W * 0.08;
             headlineFontSize = max 32 (Math_round (W / 15));
             headlineFont = \<lparr>weight = 900, size_px = headlineFontSize\<rparr>;
             ctaFontSize = max 18 (Math_round (W / 30));
             headlineY = H - padding - 1.6 * ctaFontSize - 0.5 * padding;
             tagFontSize = max 16 (Math_round (W / 35));
             tagFont = \<lparr>weight = 600, size_px = tagFontSize\<rparr>;
             tagY = headlineY - 1.1 * headlineFontSize - 0.5 * padding
         in wrapText (measureWidth env headlineFont) (headline text) (W - padding * 2) = [[]]
            \<and> length (bitmap c) = 7
            \<and> bitmap c ! 4 =
                  FillText SourceOver (Color (js ''white'')) headlineFont AlignLeft Bottom []
                    padding headlineY
            \<and> (\<exists>y. bitmap c ! 5 =
                  Fill SourceOver (Color (js ''#F97316''))
                    [RoundRect padding y (measureWidth env tagFont (tag text) + 1.5 * tagFontSize)
                       (1.8 * tagFontSize) 8]
                  \<and> y + 1.8 * tagFontSize = tagY))"
proof -
  let ?c = "mergeTextAndImage_onload env newCanvas img text"
  have "mergeTextAndImage env doc base64Image mimeType text = (Inr (toDataURL env ?c), doc @ [?c])"
    using assms(1,2) by (rule mergeTextAndImage_resolves)
  moreover have "let W = real (img_width img);
             H = real (img_height img);
             padding = W * 0.08;
             headlineFontSize = max 32 (Math_round (W / 15));
             headlineFont = \<lparr>weight = 900, size_px = headlineFontSize\<rparr>;
             ctaFontSize = max 18 (Math_round (W / 30));
             headlineY = H - padding - 1.6 * ctaFontSize - 0.5 * padding;
             tagFontSize = max 16 (Math_round (W / 35));
             tagFont = \<lparr>weight = 600, size_px = tagFontSize\<rparr>;
             tagY = headlineY - 1.1 * headlineFontSize - 0.5 * padding
         in wrapText (measureWidth env headlineFont) (headline text) (W - padding * 2) = [[]]
            \<and> length (bitmap ?c) = 7
            \<and> bitmap ?c ! 4 =
                  FillText SourceOver (Color (js ''white'')) headlineFont AlignLeft Bottom []
                    padding headlineY
            \<and> (\<exists>y. bitmap ?c ! 5 =
                  Fill SourceOver (Color (js ''#F97316''))
                    [RoundRect padding y (measureWidth env tagFont (tag text) + 1.5 * tagFontSize)
                       (1.8 * tagFontSize) 8]
                  \<and> y + 1.8 * tagFontSize = tagY)"
    by (simp add: mergeTextAndImage_onload_bitmap Let_def assms(3) wrapText_empty)
  ultimately show ?thesis by blast
qed

theorem empty_headline_one_line_witness:
  "context2d (exampleBrowser (exampleImage 1000 1000) 0 0)
   \<and> decodeImage (exampleBrowser (exampleImage 1000 1000) 0 0)
        (js ''data:'' @ js ''image/png'' @ js '';base64,'' @ js ''AAAA'') = Some (exampleImage 1000 1000)
   \<and> headline (exampleCaption []) = []
   \<and> (\<exists>c. mergeTextAndImage (exampleBrowser (exampleImage 1000 1000) 0 0) [] (js ''AAAA'')
               (js ''image/png'') (exampleCaption []) =
             (Inr (toDataURL (exampleBrowser (exampleImage 1000 1000) 0 0) c), [c])
          \<and> length (bitmap c) = 7
          \<and> bitmap c ! 4 = FillText SourceOver (Color (js ''white'')) \<lparr>weight = 900, size_px = 67\<rparr>
                AlignLeft Bottom [] 80 827.2)"
proof -
  let ?E = "exampleBrowser (exampleImage 1000 1000) 0 0"
  have h1: "context2d ?E"
    by (simp add: exampleBrowser_def)
  have h2: "decodeImage ?E (js ''data:'' @ js ''image/png'' @ js '';base64,'' @ js ''AAAA'')
      = Some (exampleImage 1000 1000)"
    by (simp add: example_eval js_def)
  have h3: "headline (exampleCaption []) = []"
    by (simp add: exampleCaption_def)
  have hfs: "max 32 (Math_round (real (img_width (exampleImage 1000 1000)) / 15)) = 67"
    by (simp add: example_eval)
  have cfs: "max 18 (Math_round (real (img_width (exampleImage 1000 1000)) / 30)) = 33"
    by (simp add: example_eval)
  obtain c where c: "mergeTextAndImage ?E [] (js ''AAAA'') (js ''image/png'') (exampleCaption [])
        = (Inr (toDataURL ?E c), [c])"
    and n: "length (bitmap c) = 7"
    and line: "bitmap c ! 4 = FillText SourceOver (Color (js ''white'')) \<lparr>weight = 900, size_px = 67\<rparr>
        AlignLeft Bottom [] 80 827.2"
    using empty_headline_one_line [OF h1 h2 h3, of "[]"]
    unfolding Let_def hfs cfs by (auto simp: exampleImage_def)
  with h1 h2 h3 show ?thesis by blast
qed

theorem empty_headline_counterexample:
  "wrapText (measureWidth (exampleBrowser (exampleImage 1000 1000) 0 0) \<lparr>weight = 900, size_px = 67\<rparr>)
      (headline (exampleCaption [])) 840 = [[]]
   \<and> length (bitmap (snd (mergeTextAndImage (exampleBrowser (exampleImage 1000 1000) 0 0) []
        (js ''AAAA'') (js ''image/png'') (exampleCaption [])) ! 0)) = 7
   \<and> bitmap (snd (mergeTextAndImage (exampleBrowser (exampleImage 1000 1000) 0 0) [] (js ''AAAA'')
                  (js ''image/png'') (exampleCaption [])) ! 0) ! 4
     = FillText SourceOver (Color (js ''white'')) \<lparr>weight = 900, size_px = 67\<rparr>
         AlignLeft Bottom [] 80 827.2
   \<and> bitmap (snd (mergeTextAndImage (exampleBrowser (exampleImage 1000 1000) 0 0) [] (js ''AAAA'')
                  (js ''image/png'') (exampleCaption [])) ! 0) ! 5
     = Fill SourceOver (Color (js ''#F97316'')) [RoundRect 80 661.3 101.5 52.2 8]
   \<and> (661.3::real) + 52.2 = 827.2 - 1.1 * 67 - 40
   \<and> (661.3::real) + 52.2 \<noteq> 827.2 - 40"
proof -
  let ?E = "exampleBrowser (exampleImage 1000 1000) 0 0"
  have h1: "context2d ?E"
    by (simp add: exampleBrowser_def)
  have h2: "decodeImage ?E (js ''data:'' @ js ''image/png'' @ js '';base64,'' @ js ''AAAA'')
      = Some (exampleImage 1000 1000)"
    by (simp add: example_eval js_def)
  have hfs: "max 32 (Math_round (real (img_width (exampleImage 1000 1000)) / 15)) = 67"
    by (simp add: example_eval)
  have cfs: "max 18 (Math_round (real (img_width (exampleImage 1000 1000)) / 30)) = 33"
    by (simp add: example_eval)
  have tfs: "max 16 (Math_round (real (img_width (exampleImage 1000 1000)) / 35)) = 29"
    by (simp add: example_eval)
  have tw: "measureWidth ?E \<lparr>weight = 600, size_px = 29\<rparr> (tag (exampleCaption [])) = 58"
    by (simp add: example_eval js_def)
  have hl: "headline (exampleCaption []) = []"
    by (simp add: exampleCaption_def)
  show ?thesis
    unfolding mergeTextAndImage_resolves [OF h1 h2] snd_conv nth_Cons_0 append_Nil
      mergeTextAndImage_onload_bitmap Let_def hfs cfs tfs tw hl wrapText_empty
    by (simp add: exampleImage_def exampleCaption_def)
qed

subsection \<open>Rejection and independence of earlier calls\<close>

text \<open>
  C5. When the image does not decode, the promise is rejected and resolves with nothing:
  with the error event of the image element when a 2D context exists, and with the
  missing-context error otherwise.
\<close>

theorem mergeTextAndImage_decode_error:
  assumes "decodeImage env (js ''data:'' @ mimeType @ js '';base64,'' @ base64Image) = None"
  shows "(\<exists>e. fst (mergeTextAndImage env doc base64Image mimeType text) = Inl e)
     \<and> (context2d env \<longrightarrow> fst (mergeTextAndImage env doc base64Image mimeType text) = Inl ImageError)"
  using mergeTextAndImage_rejects [OF assms] by simp

theorem mergeTextAndImage_decode_error_witness:
  "decodeImage (exampleBrowser (exampleImage 1000 1000) 0 0)
      (js ''data:'' @ js ''image/png'' @ js '';base64,'' @ js ''!!!!'') = None
   \<and> context2d (exampleBrowser (exampleImage 1000 1000) 0 0)
   \<and> fst (mergeTextAndImage (exampleBrowser (exampleImage 1000 1000) 0 0) [] (js ''!!!!'')
            (js ''image/png'') (exampleCaption (js ''Como crescer''))) = Inl ImageError"
proof -
  let ?E = "exampleBrowser (exampleImage 1000 1000) 0 0"
  have h: "decodeImage ?E (js ''data:'' @ js ''image/png'' @ js '';base64,'' @ js ''!!!!'') = None"
    by (simp add: example_eval js_def)
  have c: "context2d ?E"
    by (simp add: exampleBrowser_def)
  from mergeTextAndImage_decode_error [OF h, of "[]" "exampleCaption (js ''Como crescer'')"] c h
  show ?thesis by blast
qed

text \<open>
  C9. The outcome of compose is a function of the image, the mime type, the caption and
  the browser's text measure, decoder and encoder alone: it is the same whatever canvases
  earlier calls left behind, a second call with the same inputs yields the same outcome
  as the first, and the canvases that existed before the call are left as they were.
\<close>

theorem mergeTextAndImage_deterministic:
  "fst (mergeTextAndImage env doc base64Image mimeType text)
     = fst (mergeTextAndImage env doc' base64Image mimeType text)
   \<and> fst (mergeTextAndImage env (snd (mergeTextAndImage env doc base64Image mimeType text))
            base64Image mimeType text)
     = fst (mergeTextAndImage env doc base64Image mimeType text)
   \<and> take (length doc) (snd (mergeTextAndImage env doc base64Image mimeType text)) = doc"
  by (simp add: mergeTextAndImage_def createElement_canvas_def nth_append split: option.split)



section \<open>Captions of a post\<close>

lemma rem_js_nonneg: "0 \<le> a \<Longrightarrow> 0 < b \<Longrightarrow> rem_js a b = a mod b"
  by (cases "a = 0") (simp_all add: rem_js_def)

lemma cycleCaption_step:
  assumes k: "k < length ps" and p: "ps ! k = q\<lparr>activeTextIndex := x\<rparr>"
    and x: "0 \<le> x" and ne: "texts q \<noteq> []"
  shows "\<exists>ps'. cycleCaption k (Some ps) = Some ps' \<and> length ps' = length ps
     \<and> ps' ! k = q\<lparr>activeTextIndex := (x + 1) mod int (length (texts q))\<rparr>"
proof -
  have "rem_js (x + 1) (int (length (texts q))) = (x + 1) mod int (length (texts q))"
    using x ne by (intro rem_js_nonneg) simp_all
  then show ?thesis
    using k p by (simp add: cycleCaption_def handleCycleCaption_def handleCaptionChange_def)
qed

lemma cycleCaption_funpow:
  assumes k: "k < length ps" and ne: "texts (ps ! k) \<noteq> []"
    and lo: "0 \<le> activeTextIndex (ps ! k)"
    and hi: "activeTextIndex (ps ! k) < int (length (texts (ps ! k)))"
  shows "\<exists>ps'. (cycleCaption k ^^ j) (Some ps) = Some ps' \<and> length ps' = length ps
     \<and> ps' ! k = (ps ! k)\<lparr>activeTextIndex :=
          (activeTextIndex (ps ! k) + int j) mod int (length (texts (ps ! k)))\<rparr>"
proof (induction j)
  case 0
  show ?case using lo hi by simp
next
  case (Suc j)
  let ?n = "int (length (texts (ps ! k)))"
  let ?i = "activeTextIndex (ps ! k)"
  from Suc obtain ps' where ps': "(cycleCaption k ^^ j) (Some ps) = Some ps'"
    "length ps' = length ps" "ps' ! k = (ps ! k)\<lparr>activeTextIndex := (?i + int j) mod ?n\<rparr>"
    by blast
  have n: "0 < ?n" using ne by simp
  then have x: "0 \<le> (?i + int j) mod ?n" by simp
  obtain ps'' where ps'': "cycleCaption k (Some ps') = Some ps''" "length ps'' = length ps'"
    "ps'' ! k = (ps ! k)\<lparr>activeTextIndex := ((?i + int j) mod ?n + 1) mod ?n\<rparr>"
    using cycleCaption_step [where k = k and ps = ps' and q = "ps ! k" and x = "(?i + int j) mod ?n"]
      k ps'(2,3) x ne by auto
  have "((?i + int j) mod ?n + 1) mod ?n = ((?i + int j) + 1) mod ?n"
    by (rule mod_add_left_eq)
  also have "(?i + int j) + 1 = ?i + int (Suc j)"
    by simp
  finally have "((?i + int j) mod ?n + 1) mod ?n = (?i + int (Suc j)) mod ?n" .
  with ps' ps'' show ?case by simp
qed

text \<open>
  C7. For the \<open>k\<close>-th post of the application, with captions and a valid index: every
  number of clicks on the cycle button leaves its captions, image, mime type and
  identifier as they were and its index within the captions, and as many clicks as there
  are captions give the post back unchanged, so that the download of it is the same.
\<close>

theorem caption_cycling_preserves_post:
  assumes "k < length ps" and "texts (ps ! k) \<noteq> []"
    and "0 \<le> activeTextIndex (ps ! k)"
    and "activeTextIndex (ps ! k) < int (length (texts (ps ! k)))"
  shows "\<exists>ps'. (cycleCaption k ^^ j) (Some ps) = Some ps' \<and> length ps' = length ps
     \<and> texts (ps' ! k) = texts (ps ! k) \<and> post_image (ps' ! k) = post_image (ps ! k)
     \<and> imageMimeType (ps' ! k) = imageMimeType (ps ! k) \<and> post_id (ps' ! k) = post_id (ps ! k)
     \<and> 0 \<le> activeTextIndex (ps' ! k) \<and> activeTextIndex (ps' ! k) < int (length (texts (ps' ! k)))
     \<and> (j = 1 \<longrightarrow> activeTextIndex (ps' ! k)
            = (activeTextIndex (ps ! k) + 1) mod int (length (texts (ps ! k))))
     \<and> (j = length (texts (ps ! k)) \<longrightarrow>
          ps' ! k = ps ! k \<and> handleDownload env doc (ps' ! k) = handleDownload env doc (ps ! k))"
proof -
  let ?n = "int (length (texts (ps ! k)))"
  let ?i = "activeTextIndex (ps ! k)"
  obtain ps' where ps': "(cycleCaption k ^^ j) (Some ps) = Some ps'" "length ps' = length ps"
    "ps' ! k = (ps ! k)\<lparr>activeTextIndex := (?i + int j) mod ?n\<rparr>"
    using cycleCaption_funpow [OF assms, of j] by blast
  have n: "0 < ?n" using assms(2) by simp
  have same: "ps' ! k = ps ! k" if "j = length (texts (ps ! k))"
    using that ps'(3) assms(3,4) by simp
  from ps' n same show ?thesis by auto
qed

theorem caption_cycling_preserves_post_witness:
  "0 < length [examplePost 1] \<and> texts ([examplePost 1] ! 0) \<noteq> []
   \<and> 0 \<le> activeTextIndex ([examplePost 1] ! 0)
   \<and> activeTextIndex ([examplePost 1] ! 0) < int (length (texts ([examplePost 1] ! 0)))
   \<and> cycleCaption 0 (Some [examplePost 1]) = Some [examplePost 2]
   \<and> (cycleCaption 0 ^^ 2) (Some [examplePost 1]) = Some [examplePost 0]
   \<and> (cycleCaption 0 ^^ 3) (Some [examplePost 1]) = Some [examplePost 1]"
proof -
  have h: "0 < length [examplePost 1]" "texts ([examplePost 1] ! 0) \<noteq> []"
    "0 \<le> activeTextIndex ([examplePost 1] ! 0)"
    "activeTextIndex ([examplePost 1] ! 0) < int (length (texts ([examplePost 1] ! 0)))"
    by (simp_all add: examplePost_def)
  obtain ps' where "(cycleCaption 0 ^^ 3) (Some [examplePost 1]) = Some ps'"
    "length ps' = length [examplePost 1]" "ps' ! 0 = [examplePost 1] ! 0"
    using caption_cycling_preserves_post [OF h, of 3] by (auto simp: examplePost_def)
  then have three: "(cycleCaption 0 ^^ 3) (Some [examplePost 1]) = Some [examplePost 1]"
    by (cases ps') auto
  have one: "cycleCaption 0 (Some [examplePost 1]) = Some [examplePost 2]"
    by (simp add: cycleCaption_def handleCycleCaption_def handleCaptionChange_def examplePost_def
        rem_js_def)
  have two: "cycleCaption 0 (Some [examplePost 2]) = Some [examplePost 0]"
    by (simp add: cycleCaption_def handleCycleCaption_def handleCaptionChange_def examplePost_def
        rem_js_def)
  have "(cycleCaption 0 ^^ 2) (Some [examplePost 1]) = Some [examplePost 0]"
    by (simp add: numeral_2_eq_2 one two)
  with h one three show ?thesis by blast
qed

text \<open>
  C8 (as amended). With captions and an index outside them, \<^verbatim>\<open>activeText\<close> is
  \<^verbatim>\<open>undefined\<close>, and the download does not fail: it hands the image of the post,
  without a caption, to \<^verbatim>\<open>downloadImage\<close>, and nothing is composed.
\<close>

theorem download_index_out_of_bounds:
  assumes "texts p \<noteq> []"
    and "activeTextIndex p < 0 \<or> int (length (texts p)) \<le> activeTextIndex p"
  shows "handleDownload env doc p =
           (DownloadImage (js ''data:'' @ imageMimeType p @ js '';base64,'' @ post_image p)
              (fileName p), doc)"
  using assms by (auto simp: handleDownload_def activeText_def index_js_def)

theorem download_index_out_of_bounds_witness:
  "texts (examplePost 3) \<noteq> []
   \<and> (activeTextIndex (examplePost 3) < 0
        \<or> int (length (texts (examplePost 3))) \<le> activeTextIndex (examplePost 3))
   \<and> handleDownload (exampleBrowser (exampleImage 1000 1000) 0 0) [newCanvas] (examplePost 3) =
        (DownloadImage (js ''data:image/png;base64,AAAA'') (js ''genius-post-0a1b2c3d.png''),
         [newCanvas])"
proof -
  have h: "texts (examplePost 3) \<noteq> []"
    "activeTextIndex (examplePost 3) < 0
       \<or> int (length (texts (examplePost 3))) \<le> activeTextIndex (examplePost 3)"
    by (simp_all add: examplePost_def)
  from download_index_out_of_bounds
         [OF h, of "exampleBrowser (exampleImage 1000 1000) 0 0" "[newCanvas]"] h
  show ?thesis
    by (simp add: examplePost_def fileName_def js_def)
qed

theorem download_index_out_of_bounds_counterexample:
  "activeText (examplePost 3) = None
   \<and> handleDownload (exampleBrowser (exampleImage 1000 1000) 0 0) [] (examplePost 3) =
        (DownloadImage (js ''data:image/png;base64,AAAA'') (js ''genius-post-0a1b2c3d.png''), [])
   \<and> handleDownload (exampleBrowser (exampleImage 1000 1000) 0 0) [] (examplePost 3)
        \<noteq> (MergeAlert, [])"
  by (simp add: handleDownload_def activeText_def index_js_def examplePost_def fileName_def js_def)


section \<open>Double-precision arithmetic\<close>

subsection \<open>Binades and rounding\<close>

lemma binade_ge1:
  assumes "1 \<le> x"
  shows "2 powi binade x \<le> x \<and> x < 2 powi (binade x + 1)"
proof -
  let ?m = "\<lfloor>x\<rfloor>"
  have m: "0 < ?m" using assms by simp
  have b: "2 ^ nat (bitlen ?m - 1) \<le> ?m" "?m < 2 ^ nat (bitlen ?m)"
    using bitlen_bounds [OF m] by simp_all
  have ge: "1 \<le> bitlen ?m" using m by (simp add: bitlen_alt_def)
  have e: "binade x = bitlen ?m - 1" using assms by (simp add: binade_def)
  have "(2::real) powi (bitlen ?m - 1) = of_int (2 ^ nat (bitlen ?m - 1))"
    using ge by (simp add: power_int_def)
  also have "\<dots> \<le> of_int ?m" using b(1) by (simp only: of_int_le_iff)
  also have "\<dots> \<le> x" by simp
  finally have lo: "2 powi binade x \<le> x" by (simp add: e)
  have "?m + 1 \<le> 2 ^ nat (bitlen ?m)" using b(2) by simp
  then have "real_of_int (?m + 1) \<le> of_int (2 ^ nat (bitlen ?m))" by (simp only: of_int_le_iff)
  then have "real_of_int ?m + 1 \<le> 2 ^ nat (bitlen ?m)" by simp
  moreover have "x < real_of_int ?m + 1" by linarith
  ultimately have "x < 2 ^ nat (bitlen ?m)" by linarith
  moreover have "(2::real) powi (bitlen ?m) = 2 ^ nat (bitlen ?m)"
    using ge by (simp add: power_int_def)
  ultimately have "x < 2 powi (binade x + 1)" by (simp add: e)
  with lo show ?thesis by simp
qed

lemma binade_lt1:
  assumes "0 < x" "x < 1"
  shows "2 powi binade x \<le> x \<and> x < 2 powi (binade x + 1)"
proof -
  let ?y = "1 / x"
  have y: "1 \<le> ?y" using assms by simp
  let ?k = "binade ?y"
  have k: "?k = bitlen \<lfloor>?y\<rfloor> - 1" using y by (simp add: binade_def)
  have k0: "0 \<le> ?k" using y by (simp add: k bitlen_alt_def)
  have yb: "2 powi ?k \<le> ?y" "?y < 2 powi (?k + 1)" using binade_ge1 [OF y] by simp_all
  have p: "(2::real) powi ?k = 2 ^ nat ?k" using k0 by (simp add: power_int_def)
  have inv: "(2::real) powi (- n) = 1 / 2 powi n" for n
    by (simp add: power_int_minus inverse_eq_divide)
  have suc: "(2::real) powi (n + 1) = 2 powi n * 2" for n
    by (simp add: power_int_add)
  show ?thesis
  proof (cases "?y = 2 ^ nat ?k")
    case True
    then have e: "binade x = - ?k" using assms by (simp add: binade_def k Let_def)
    have x: "x = 1 / 2 powi ?k" using True assms by (simp add: p field_simps)
    have "2 powi (- ?k) = x" by (simp only: inv x [symmetric])
    moreover have "2 powi (- ?k + 1) = x * 2" by (simp only: suc inv x [symmetric])
    ultimately show ?thesis using assms(1) by (simp add: e)
  next
    case False
    then have e: "binade x = - ?k - 1" using assms by (simp add: binade_def k Let_def)
    have lt: "2 powi ?k < ?y" using yb(1) False p by simp
    have pos: "(0::real) < 2 powi ?k" "(0::real) < 2 powi (?k + 1)" by simp_all
    have "1 < x * 2 powi (?k + 1)"
      using yb(2) assms(1) by (simp add: field_simps)
    then have "1 / 2 powi (?k + 1) < x"
      using pos(2) by (simp add: field_simps)
    then have lo: "2 powi (- (?k + 1)) < x" by (simp only: inv)
    have "x * 2 powi ?k < 1"
      using lt assms(1) by (simp add: field_simps)
    then have "x < 1 / 2 powi ?k"
      using pos(1) by (simp add: field_simps)
    then have hi: "x < 2 powi (- ?k)" by (simp only: inv)
    have e1: "binade x = - (?k + 1)" and e2: "binade x + 1 = - ?k"
      using e by simp_all
    have "2 powi binade x \<le> x"
      unfolding e1 using lo by (rule less_imp_le)
    moreover have "x < 2 powi (binade x + 1)"
      unfolding e2 by (rule hi)
    ultimately show ?thesis by (rule conjI)
  qed
qed

lemma binade_bounds:
  "0 < x \<Longrightarrow> 2 powi binade x \<le> x \<and> x < 2 powi (binade x + 1)"
  using binade_ge1 [of x] binade_lt1 [of x] by (cases "1 \<le> x") auto

lemma binade_eqI:
  assumes "0 < x" "2 powi e \<le> x" "x < 2 powi (e + 1)"
  shows "binade x = e"
proof (rule ccontr)
  assume ne: "binade x \<noteq> e"
  have b: "2 powi binade x \<le> x" "x < 2 powi (binade x + 1)"
    using binade_bounds [OF assms(1)] by simp_all
  show False
  proof (cases "e < binade x")
    case True
    then have "(2::real) powi (e + 1) \<le> 2 powi binade x"
      by (intro power_int_increasing) simp_all
    with b(1) assms(3) show False by linarith
  next
    case False
    with ne have "(2::real) powi (binade x + 1) \<le> 2 powi e"
      by (intro power_int_increasing) simp_all
    with b(2) assms(2) show False by linarith
  qed
qed

lemma binade_mono:
  assumes "0 < x" "x \<le> y"
  shows "binade x \<le> binade y"
proof (rule ccontr)
  assume "\<not> binade x \<le> binade y"
  then have "(2::real) powi (binade y + 1) \<le> 2 powi binade x"
    by (intro power_int_increasing) simp_all
  moreover have "2 powi binade x \<le> x" using binade_bounds [OF assms(1)] by simp
  moreover have "y < 2 powi (binade y + 1)" using binade_bounds [of y] assms by simp
  ultimately show False using assms(2) by linarith
qed

lemma roundTiesToEven_range:
  "\<lfloor>x\<rfloor> \<le> roundTiesToEven x" "roundTiesToEven x \<le> \<lfloor>x\<rfloor> + 1"
  by (simp_all add: roundTiesToEven_def Let_def)

lemma roundTiesToEven_mono:
  assumes "x \<le> y"
  shows "roundTiesToEven x \<le> roundTiesToEven y"
proof (cases "\<lfloor>x\<rfloor> < \<lfloor>y\<rfloor>")
  case True
  with roundTiesToEven_range(2) [of x] roundTiesToEven_range(1) [of y] show ?thesis by linarith
next
  case False
  with assms have "\<lfloor>x\<rfloor> = \<lfloor>y\<rfloor>" using floor_mono [of x y] by simp
  with assms show ?thesis
    by (auto simp: roundTiesToEven_def Let_def)
qed

lemma roundTiesToEven_of_int: "roundTiesToEven (of_int n) = n"
  by (simp add: roundTiesToEven_def)

lemma roundTiesToEven_error: "\<bar>of_int (roundTiesToEven x) - x\<bar> \<le> 1 / 2"
proof -
  have "0 \<le> x - of_int \<lfloor>x\<rfloor>" "x - of_int \<lfloor>x\<rfloor> < 1" by linarith+
  then show ?thesis
    by (auto simp: roundTiesToEven_def Let_def)
qed

lemma ulp_pos: "0 < ulp x"
  by (simp add: ulp_def)

lemma ulp_binade: "ulp x * 2 ^ 52 = 2 powi binade x"
proof -
  have "(2::real) powi (binade x - 52) = 2 powi binade x / 2 powi 52"
    by (rule power_int_diff) simp
  then show ?thesis by (simp add: ulp_def)
qed

lemma toDouble_pos:
  "0 < x \<Longrightarrow> toDouble x = of_int (roundTiesToEven (x / ulp x)) * ulp x"
  by (simp add: toDouble_def)

lemma scaled_bounds:
  assumes "0 < x"
  shows "2 ^ 52 \<le> x / ulp x" and "x / ulp x < 2 ^ 53"
proof -
  have b: "2 powi binade x \<le> x" "x < 2 powi (binade x + 1)"
    using binade_bounds [OF assms] by simp_all
  have "(2::real) powi (binade x + 1) = 2 powi binade x * 2"
    by (simp add: power_int_add)
  with b(2) have hi: "x < ulp x * 2 ^ 53"
    using ulp_binade [of x] by simp
  from b(1) have lo: "ulp x * 2 ^ 52 \<le> x"
    using ulp_binade [of x] by simp
  show "2 ^ 52 \<le> x / ulp x"
    using lo ulp_pos [of x] by (simp add: field_simps)
  show "x / ulp x < 2 ^ 53"
    using hi ulp_pos [of x] by (simp add: field_simps)
qed

lemma mantissa_bounds:
  assumes "0 < x"
  shows "2 ^ 52 \<le> roundTiesToEven (x / ulp x)" and "roundTiesToEven (x / ulp x) \<le> 2 ^ 53"
proof -
  have "roundTiesToEven (of_int (2 ^ 52)) \<le> roundTiesToEven (x / ulp x)"
    using scaled_bounds(1) [OF assms] by (intro roundTiesToEven_mono) simp
  then show "2 ^ 52 \<le> roundTiesToEven (x / ulp x)"
    by (simp only: roundTiesToEven_of_int)
  have "roundTiesToEven (x / ulp x) \<le> roundTiesToEven (of_int (2 ^ 53))"
    using scaled_bounds(2) [OF assms] by (intro roundTiesToEven_mono) simp
  then show "roundTiesToEven (x / ulp x) \<le> 2 ^ 53"
    by (simp only: roundTiesToEven_of_int)
qed

lemma toDouble_range:
  assumes "0 < x"
  shows "2 powi binade x \<le> toDouble x" and "toDouble x \<le> 2 powi (binade x + 1)"
proof -
  let ?m = "roundTiesToEven (x / ulp x)"
  have m: "(2::real) ^ 52 \<le> of_int ?m" "real_of_int ?m \<le> 2 ^ 53"
    using mantissa_bounds [OF assms] by (simp_all add: of_int_le_iff [symmetric] del: of_int_le_iff)
  have "2 ^ 52 * ulp x \<le> of_int ?m * ulp x"
    using m(1) ulp_pos [of x] by (intro mult_right_mono) simp_all
  then show "2 powi binade x \<le> toDouble x"
    using ulp_binade [of x] by (simp add: toDouble_pos [OF assms] mult.commute)
  have "of_int ?m * ulp x \<le> 2 ^ 53 * ulp x"
    using m(2) ulp_pos [of x] by (intro mult_right_mono) simp_all
  moreover have "(2::real) powi (binade x + 1) = 2 powi binade x * 2"
    by (simp add: power_int_add)
  ultimately show "toDouble x \<le> 2 powi (binade x + 1)"
    using ulp_binade [of x] by (simp add: toDouble_pos [OF assms])
qed

lemma toDouble_positive: "0 < x \<Longrightarrow> 0 < toDouble x"
  using toDouble_range(1) [of x] zero_less_power_int [of "2::real" "binade x"] by linarith

lemma toDouble_grid:
  assumes "0 < x" and "x = of_int n * ulp x"
  shows "toDouble x = x"
proof -
  have "x / ulp x = of_int n"
    using assms(2) ulp_pos [of x] by (simp add: field_simps)
  then show ?thesis
    using assms by (simp add: toDouble_pos roundTiesToEven_of_int)
qed

lemma toDouble_idem:
  assumes "0 < x"
  shows "toDouble (toDouble x) = toDouble x"
proof -
  let ?m = "roundTiesToEven (x / ulp x)"
  let ?d = "toDouble x"
  have d: "?d = of_int ?m * ulp x" by (rule toDouble_pos [OF assms])
  have dpos: "0 < ?d" by (rule toDouble_positive [OF assms])
  have suc: "(2::real) powi (n + 1) = 2 powi n * 2" for n
    by (simp add: power_int_add)
  show ?thesis
  proof (cases "?m = 2 ^ 53")
    case True
    then have top: "?d = 2 powi (binade x + 1)"
      using ulp_binade [of x] by (simp add: d suc)
    have "binade ?d = binade x + 1"
    proof (rule binade_eqI [OF dpos])
      show "2 powi (binade x + 1) \<le> ?d" by (simp only: top)
      show "?d < 2 powi (binade x + 1 + 1)"
        unfolding top by (intro power_int_strict_increasing) simp_all
    qed
    then have "ulp ?d * 2 ^ 52 = ?d"
      using ulp_binade [of ?d] top by simp
    then have "?d = of_int (2 ^ 52) * ulp ?d" by simp
    then show ?thesis by (rule toDouble_grid [OF dpos])
  next
    case False
    then have "?m < 2 ^ 53" using mantissa_bounds(2) [OF assms] by simp
    then have "real_of_int ?m < 2 ^ 53"
      by (simp add: of_int_less_iff [symmetric] del: of_int_less_iff)
    then have "of_int ?m * ulp x < 2 ^ 53 * ulp x"
      using ulp_pos [of x] by (intro mult_strict_right_mono) simp_all
    then have "?d < 2 powi (binade x + 1)"
      using ulp_binade [of x] by (simp add: d [symmetric] suc)
    then have "binade ?d = binade x"
      using toDouble_range(1) [OF assms] by (intro binade_eqI [OF dpos]) simp_all
    then have "ulp ?d = ulp x" by (simp add: ulp_def)
    then have "?d = of_int ?m * ulp ?d" using d by simp
    then show ?thesis by (rule toDouble_grid [OF dpos])
  qed
qed

lemma toDouble_mono:
  assumes "0 < x" "x \<le> y"
  shows "toDouble x \<le> toDouble y"
proof (cases "binade x = binade y")
  case True
  then have u: "ulp x = ulp y" by (simp add: ulp_def)
  have "x / ulp y \<le> y / ulp y"
    using assms(2) ulp_pos [of y] by (simp add: divide_right_mono)
  then have "roundTiesToEven (x / ulp y) \<le> roundTiesToEven (y / ulp y)"
    by (rule roundTiesToEven_mono)
  then have "real_of_int (roundTiesToEven (x / ulp y)) * ulp y
      \<le> real_of_int (roundTiesToEven (y / ulp y)) * ulp y"
    using ulp_pos [of y] by (intro mult_right_mono) simp_all
  then show ?thesis
    using assms by (simp add: toDouble_pos u)
next
  case False
  with binade_mono [OF assms] have "binade x + 1 \<le> binade y" by simp
  then have "(2::real) powi (binade x + 1) \<le> 2 powi binade y"
    by (intro power_int_increasing) simp_all
  moreover have "toDouble x \<le> 2 powi (binade x + 1)"
    by (rule toDouble_range(2) [OF assms(1)])
  moreover have "2 powi binade y \<le> toDouble y"
    using assms by (intro toDouble_range(1)) simp
  ultimately show ?thesis by linarith
qed

text \<open>No double lies strictly between a number and the double it rounds to.\<close>

lemma double_below_rounded:
  assumes "0 < d" "toDouble d = d" "0 < x" "d < toDouble x"
  shows "d \<le> x"
proof (rule ccontr)
  assume "\<not> d \<le> x"
  then have "toDouble x \<le> toDouble d"
    using assms(3) by (intro toDouble_mono) simp_all
  with assms(2,4) show False by simp
qed

lemma toDouble_of_nat:
  assumes "0 < n" "n < 2 ^ 53"
  shows "toDouble (real n) = real n"
proof -
  have pos: "0 < real n" using assms(1) by simp
  have "2 powi binade (real n) \<le> real n" using binade_bounds [OF pos] by simp
  moreover have "real n < real (2 ^ 53)"
    using assms(2) by (simp only: of_nat_less_iff)
  ultimately have lt: "(2::real) powi binade (real n) < 2 powi 53" by simp
  have "binade (real n) < 53"
  proof (rule ccontr)
    assume "\<not> binade (real n) < 53"
    then have "(2::real) powi 53 \<le> 2 powi binade (real n)"
      by (intro power_int_increasing) simp_all
    with lt show False by simp
  qed
  then have e: "0 \<le> 52 - binade (real n)" by simp
  have "ulp (real n) * 2 powi (52 - binade (real n)) = 1"
    by (simp add: ulp_def power_int_add [symmetric])
  then have "real n = real n * 2 powi (52 - binade (real n)) * ulp (real n)"
    by (simp add: mult.assoc mult.commute)
  moreover have "real n * 2 powi (52 - binade (real n))
      = of_int (int n * 2 ^ nat (52 - binade (real n)))"
    using e by (simp add: power_int_def)
  ultimately have "real n = of_int (int n * 2 ^ nat (52 - binade (real n))) * ulp (real n)"
    by simp
  then show ?thesis by (rule toDouble_grid [OF pos])
qed

lemma toDouble_zero: "toDouble 0 = 0"
  by (simp add: toDouble_def)

lemma toDouble_nonneg: "0 \<le> x \<Longrightarrow> 0 \<le> toDouble x"
  using toDouble_positive [of x] by (cases "x = 0") (simp_all add: toDouble_zero less_imp_le)

lemma toDouble_idem_nonneg: "0 \<le> x \<Longrightarrow> toDouble (toDouble x) = toDouble x"
  using toDouble_idem [of x] by (cases "x = 0") (simp_all add: toDouble_zero)

lemma toDouble_upper:
  assumes "0 < x"
  shows "toDouble x \<le> x + x / 2 ^ 53"
proof -
  let ?m = "roundTiesToEven (x / ulp x)"
  have "real_of_int ?m \<le> x / ulp x + 1 / 2"
    using roundTiesToEven_error [of "x / ulp x"] by linarith
  then have "real_of_int ?m * ulp x \<le> (x / ulp x + 1 / 2) * ulp x"
    using ulp_pos [of x] by (intro mult_right_mono) simp_all
  also have "\<dots> = x + ulp x / 2"
    using ulp_pos [of x] by (simp add: field_simps)
  finally have "toDouble x \<le> x + ulp x / 2"
    by (simp add: toDouble_pos [OF assms])
  moreover have "ulp x * 2 ^ 52 \<le> x"
    using binade_bounds [OF assms] ulp_binade [of x] by simp
  ultimately show ?thesis by simp
qed

text \<open>A double below another double is below it by at least its share of \<open>2 ^ 53\<close>.\<close>

lemma double_gap:
  assumes d: "0 < d" "toDouble d = d" and n: "toDouble n = n" and lt: "d < n"
  shows "d \<le> n - n / 2 ^ 53"
proof -
  let ?md = "roundTiesToEven (d / ulp d)" and ?mn = "roundTiesToEven (n / ulp n)"
  have npos: "0 < n" using d(1) lt by simp
  have dm: "d = of_int ?md * ulp d" using toDouble_pos [OF d(1)] d(2) by simp
  have nm: "n = of_int ?mn * ulp n" using toDouble_pos [OF npos] n by simp
  have bn: "2 powi binade n \<le> n" "n < 2 powi (binade n + 1)"
    using binade_bounds [OF npos] by simp_all
  have bd: "2 powi binade d \<le> d" "d < 2 powi (binade d + 1)"
    using binade_bounds [OF d(1)] by simp_all
  have suc: "(2::real) powi (k + 1) = 2 powi k * 2" for k
    by (simp add: power_int_add)
  show ?thesis
  proof (cases "binade d = binade n")
    case True
    then have u: "ulp d = ulp n" by (simp add: ulp_def)
    have "real_of_int ?md * ulp n < real_of_int ?mn * ulp n"
      using lt dm nm u by simp
    then have "real_of_int ?md < real_of_int ?mn"
      using ulp_pos [of n] by (simp add: mult_less_cancel_right)
    then have "?md + 1 \<le> ?mn" by simp
    then have "real_of_int (?md + 1) \<le> real_of_int ?mn" by (simp only: of_int_le_iff)
    then have "real_of_int (?md + 1) * ulp n \<le> real_of_int ?mn * ulp n"
      using ulp_pos [of n] by (intro mult_right_mono) simp_all
    then have "d + ulp n \<le> n"
      using dm nm u by (simp add: algebra_simps)
    moreover have "n < ulp n * 2 ^ 53"
      using bn(2) ulp_binade [of n] by (simp add: suc)
    ultimately show ?thesis by simp
  next
    case False
    with binade_mono [OF d(1), of n] lt have "binade d + 1 \<le> binade n" by simp
    then have "(2::real) powi (binade d + 1) \<le> 2 powi binade n"
      by (intro power_int_increasing) simp_all
    with bn(1) have P: "2 powi (binade d + 1) \<le> n" by simp
    have top: "(2::real) powi (binade d + 1) = ulp d * 2 ^ 53"
      using ulp_binade [of d] by (simp add: suc)
    have "real_of_int ?md * ulp d < 2 ^ 53 * ulp d"
      using bd(2) dm top by (simp add: mult.commute)
    then have "real_of_int ?md < 2 ^ 53"
      using ulp_pos [of d] by (simp add: mult_less_cancel_right)
    then have "?md < 2 ^ 53"
      by (simp add: of_int_less_iff [symmetric] del: of_int_less_iff)
    then have "?md \<le> 2 ^ 53 - 1" by simp
    then have "real_of_int ?md \<le> real_of_int (2 ^ 53 - 1)" by (simp only: of_int_le_iff)
    then have "real_of_int ?md * ulp d \<le> real_of_int (2 ^ 53 - 1) * ulp d"
      using ulp_pos [of d] by (intro mult_right_mono) simp_all
    then have "d \<le> ulp d * 2 ^ 53 - ulp d"
      using dm by (simp add: algebra_simps)
    also have "\<dots> = 2 powi (binade d + 1) - 2 powi (binade d + 1) / 2 ^ 53"
      by (simp add: top)
    also have "\<dots> \<le> n - n / 2 ^ 53"
      using P by simp
    finally show ?thesis .
  qed
qed

lemma toDouble_eval:
  assumes "0 < x" "2 powi e \<le> x" "x < 2 powi (e + 1)"
  shows "toDouble x = of_int (roundTiesToEven (x / 2 powi (e - 52))) * 2 powi (e - 52)"
  using binade_eqI [OF assms] assms(1) by (simp add: toDouble_pos ulp_def)

lemma rounded_display_size:
  fixes iw ih mw mh :: real
  assumes iw: "0 < iw" "toDouble iw = iw" and ih: "0 < ih" "toDouble ih = ih"
    and mw: "0 \<le> mw" "toDouble mw = mw" and mh: "0 \<le> mh" "toDouble mh = mh"
  defines "ratio \<equiv> toDouble (iw / ih)"
  defines "w1 \<equiv> (if iw > mw then mw else iw)"
  defines "h1 \<equiv> (if iw > mw then toDouble (w1 / ratio) else ih)"
  defines "w2 \<equiv> (if h1 > mh then toDouble (mh * ratio) else w1)"
  defines "h2 \<equiv> (if h1 > mh then mh else h1)"
  shows "w2 \<le> mw" and "h2 \<le> mh" and "iw \<le> mw \<Longrightarrow> ih \<le> mh \<Longrightarrow> w2 = iw \<and> h2 = ih"
proof -
  have q: "0 < iw / ih" using iw(1) ih(1) by simp
  have r: "0 < ratio" unfolding ratio_def by (rule toDouble_positive [OF q])
  have w1: "w1 \<le> mw" by (simp add: w1_def)
  show "h2 \<le> mh" by (simp add: h2_def)
  show "w2 = iw \<and> h2 = ih" if "iw \<le> mw" "ih \<le> mh"
    using that by (simp add: w2_def h2_def w1_def h1_def)
  show "w2 \<le> mw"
  proof (cases "h1 > mh")
    case False
    with w1 show ?thesis by (simp add: w2_def)
  next
    case True
    then have w2: "w2 = toDouble (mh * ratio)" by (simp add: w2_def)
    show ?thesis
    proof (cases "mh = 0")
      case True
      with mw(1) show ?thesis by (simp add: w2 toDouble_zero)
    next
      case False
      with mh(1) have mhpos: "0 < mh" by simp
      then have prod: "0 < mh * ratio" using r by simp
      show ?thesis
      proof (cases "iw > mw")
        case True
        with \<open>h1 > mh\<close> have gt: "mh < toDouble (mw / ratio)" by (simp add: h1_def w1_def)
        have "mw \<noteq> 0"
          using gt mh(1) by (auto simp: toDouble_zero)
        with mw(1) have "0 < mw / ratio" using r by simp
        from double_below_rounded [OF mhpos mh(2) this gt]
        have "mh * ratio \<le> mw" using r by (simp add: field_simps)
        then have "toDouble (mh * ratio) \<le> toDouble mw"
          by (rule toDouble_mono [OF prod])
        then show ?thesis by (simp add: w2 mw(2))
      next
        case False
        with \<open>h1 > mh\<close> have lt: "mh < ih" by (simp add: h1_def)
        have a: "mh \<le> ih - ih / 2 ^ 53"
          by (rule double_gap [OF mhpos mh(2) ih(2) lt])
        have b: "ratio \<le> iw / ih + iw / ih / 2 ^ 53"
          unfolding ratio_def by (rule toDouble_upper [OF q])
        have "mh * ratio \<le> (ih - ih / 2 ^ 53) * (iw / ih + iw / ih / 2 ^ 53)"
          using a b mhpos r by (intro mult_mono) simp_all
        also have "\<dots> = iw - iw / (2 ^ 53 * 2 ^ 53)"
          using ih(1) by (simp add: field_simps)
        also have "\<dots> \<le> iw" using iw(1) by simp
        finally have "toDouble (mh * ratio) \<le> toDouble iw"
          by (rule toDouble_mono [OF prod])
        with False show ?thesis by (simp add: w2 iw(2))
      qed
    qed
  qed
qed



section \<open>The touch-up canvas\<close>

lemma gco_path_ops:
  "globalCompositeOperation (beginPath c) = globalCompositeOperation c"
  "globalCompositeOperation (moveTo x y c) = globalCompositeOperation c"
  "globalCompositeOperation (lineTo x y c) = globalCompositeOperation c"
  "globalCompositeOperation (stroke c) = globalCompositeOperation c"
  "globalCompositeOperation (closePath c) = globalCompositeOperation c"
  "globalCompositeOperation (clearRect x y w h c) = globalCompositeOperation c"
  by (simp_all add: beginPath_def moveTo_def lineTo_def stroke_def closePath_def clearRect_def)

lemma image_onload_state:
  "isDrawing (image_onload env img ed) = isDrawing ed"
  "globalCompositeOperation (canvasRef (image_onload env img ed)) = SourceOver"
  by (simp_all add: image_onload_def Let_def split_def gco_path_ops set_size_simps)

lemma normal_when_idle_mount: "normal_when_idle env (mount url)"
  by (simp add: normal_when_idle_def mount_def newCanvas_def)

lemma normal_when_idle_handle:
  "normal_when_idle env ed \<Longrightarrow> normal_when_idle env (handle env ed e)"
  by (cases e)
     (auto simp: normal_when_idle_def openImage_def image_onload_state startDrawing_def draw_def
        stopDrawing_def Let_def gco_path_ops split: option.splits)

lemma normal_when_idle_session: "normal_when_idle env (session env url events)"
proof -
  have "normal_when_idle env (foldl (handle env) ed events)" if "normal_when_idle env ed" for ed
    using that by (induction events arbitrary: ed) (simp_all add: normal_when_idle_handle)
  then show ?thesis
    by (simp add: session_def normal_when_idle_mount)
qed

lemma session_snoc: "session env url (events @ [e]) = handle env (session env url events) e"
  by (simp add: session_def)

lemma stopDrawing_idle: "\<not> isDrawing (stopDrawing env ed)"
  by (simp add: stopDrawing_def Let_def)

text \<open>
  C4. From the mounted editor and for every sequence of events, the compositing mode is
  \<^verbatim>\<open>source-over\<close> whenever no stroke is active; and after a pointer-up or a
  pointer-leave no stroke is active and the mode is \<^verbatim>\<open>source-over\<close>, so that the
  eraser's \<^verbatim>\<open>destination-out\<close> is never what the next stroke starts from.
\<close>

theorem stroke_end_resets_compositing:
  "(\<not> isDrawing (session env url events)
      \<longrightarrow> globalCompositeOperation (canvasRef (session env url events)) = SourceOver)
   \<and> (e = MouseUp \<or> e = MouseLeave
      \<longrightarrow> \<not> isDrawing (session env url (events @ [e]))
        \<and> globalCompositeOperation (canvasRef (session env url (events @ [e]))) = SourceOver)"
proof -
  have idle: "globalCompositeOperation (canvasRef (session env url evs)) = SourceOver"
    if "\<not> isDrawing (session env url evs)" for evs
    using normal_when_idle_session [of env url evs] that by (simp add: normal_when_idle_def)
  have "\<not> isDrawing (session env url (events @ [e]))" if "e = MouseUp \<or> e = MouseLeave"
    using that by (auto simp: session_snoc stopDrawing_idle)
  with idle show ?thesis by blast
qed

theorem stroke_end_resets_compositing_witness:
  "isDrawing (session (exampleBrowser (exampleImage 1000 1000) 0 0) []
      [SetTool Eraser, MouseDown (1, 1), MouseMove (2, 2)])
   \<and> globalCompositeOperation (canvasRef (session (exampleBrowser (exampleImage 1000 1000) 0 0) []
      [SetTool Eraser, MouseDown (1, 1), MouseMove (2, 2)])) = DestinationOut
   \<and> \<not> isDrawing (session (exampleBrowser (exampleImage 1000 1000) 0 0) []
      ([SetTool Eraser, MouseDown (1, 1), MouseMove (2, 2)] @ [MouseUp]))
   \<and> globalCompositeOperation (canvasRef (session (exampleBrowser (exampleImage 1000 1000) 0 0) []
      ([SetTool Eraser, MouseDown (1, 1), MouseMove (2, 2)] @ [MouseUp]))) = SourceOver"
proof -
  let ?E = "exampleBrowser (exampleImage 1000 1000) 0 0"
  let ?evs = "[SetTool Eraser, MouseDown (1, 1), MouseMove (2, 2)]"
  have mid: "isDrawing (session ?E [] ?evs)
      \<and> globalCompositeOperation (canvasRef (session ?E [] ?evs)) = DestinationOut"
    by (simp add: session_def mount_def startDrawing_def draw_def Let_def gco_path_ops
        exampleBrowser_def)
  from stroke_end_resets_compositing [of ?E "[]" ?evs MouseUp] mid show ?thesis
    by blast
qed



subsection \<open>Opening an image\<close>

lemma image_onload_container:
  "containerRef (image_onload env img ed) =
     (let maxWidth = toDouble (real (innerWidth env) * toDouble 0.8);
          maxHeight = toDouble (real (innerHeight env) * toDouble 0.7);
          ratio = toDouble (real (img_width img) / real (img_height img));
          w1 = (if real (img_width img) > maxWidth then maxWidth else real (img_width img));
          h1 = (if real (img_width img) > maxWidth then toDouble (w1 / ratio)
                else real (img_height img));
          w2 = (if h1 > maxHeight then toDouble (maxHeight * ratio) else w1);
          h2 = (if h1 > maxHeight then maxHeight else h1)
      in (containerRef ed)\<lparr>style_width := Some w2, style_height := Some h2,
            backgroundImage := Some (js ''url('' @ imageDataUrl ed @ js '')''),
            backgroundSize := Some (js ''contain''),
            backgroundRepeat := Some (js ''no-repeat''),
            backgroundPosition := Some (js ''center'')\<rparr>)"
  by (simp add: image_onload_def Let_def split_def)

lemma image_onload_canvas:
  "style_width (containerRef (image_onload env img ed)) = Some w \<Longrightarrow>
   style_height (containerRef (image_onload env img ed)) = Some h \<Longrightarrow>
   width (canvasRef (image_onload env img ed)) = toULong w
   \<and> height (canvasRef (image_onload env img ed)) = toULong h
   \<and> bitmap (canvasRef (image_onload env img ed)) = [ClearRect 0 0 w h]"
  by (simp add: image_onload_def Let_def split_def clearRect_def set_width_def set_height_def
        newCanvas_def split: if_splits)

text \<open>
  C6 (as amended). For a background image of positive size that decodes, opening it
  computes, in double arithmetic, the bounds \<open>maxWidth\<close> (0.8 of the window's width) and
  \<open>maxHeight\<close> (0.7 of its height) and a display size within both. The display size is
  the native size when that is within both computed bounds; otherwise one side is a
  bound and the other that bound divided or multiplied by the rounded ratio of width to
  height, each result rounded to a double, so that the proportions are kept up to
  rounding. The drawing buffer is allocated at the display size truncated to whole
  pixels, since the width and height of a canvas are integers; it holds nothing but the
  clearing of its area, and the background is the container's style, not a drawing on
  the buffer.
\<close>

theorem open_display_size:
  assumes "context2d env" and "decodeImage env (imageDataUrl ed) = Some img"
    and "0 < img_width img" and "img_width img < 2 ^ 32"
    and "0 < img_height img" and "img_height img < 2 ^ 32"
  shows "\<exists>w h. style_width (containerRef (openImage env ed)) = Some w
     \<and> style_height (containerRef (openImage env ed)) = Some h
     \<and> (let maxWidth = toDouble (real (innerWidth env) * toDouble 0.8);
             maxHeight = toDouble (real (innerHeight env) * toDouble 0.7);
             ratio = toDouble (real (img_width img) / real (img_height img))
         in w \<le> maxWidth \<and> h \<le> maxHeight
            \<and> (w = real (img_width img) \<and> h = real (img_height img)
                 \<or> w = maxWidth \<and> h = toDouble (maxWidth / ratio)
                 \<or> w = toDouble (maxHeight * ratio) \<and> h = maxHeight)
            \<and> (real (img_width img) \<le> maxWidth \<and> real (img_height img) \<le> maxHeight
                 \<longrightarrow> w = real (img_width img) \<and> h = real (img_height img)))
     \<and> width (canvasRef (openImage env ed)) = nat \<lfloor>w\<rfloor>
     \<and> height (canvasRef (openImage env ed)) = nat \<lfloor>h\<rfloor>
     \<and> bitmap (canvasRef (openImage env ed)) = [ClearRect 0 0 w h]
     \<and> backgroundImage (containerRef (openImage env ed))
          = Some (js ''url('' @ imageDataUrl ed @ js '')'')"
proof -
  let ?mw = "toDouble (real (innerWidth env) * toDouble 0.8)"
  let ?mh = "toDouble (real (innerHeight env) * toDouble 0.7)"
  let ?iw = "real (img_width img)" and ?ih = "real (img_height img)"
  let ?r = "toDouble (?iw / ?ih)"
  let ?w1 = "if ?iw > ?mw then ?mw else ?iw"
  let ?h1 = "if ?iw > ?mw then toDouble (?w1 / ?r) else ?ih"
  let ?w = "if ?h1 > ?mh then toDouble (?mh * ?r) else ?w1"
  let ?h = "if ?h1 > ?mh then ?mh else ?h1"
  have opened: "openImage env ed = image_onload env img ed"
    using assms(1,2) by (simp add: openImage_def)
  have iw: "0 < ?iw" "toDouble ?iw = ?iw"
    using assms(3,4) by (simp_all add: toDouble_of_nat)
  have ih: "0 < ?ih" "toDouble ?ih = ?ih"
    using assms(5,6) by (simp_all add: toDouble_of_nat)
  have c: "0 \<le> toDouble 0.8" "0 \<le> toDouble 0.7"
    by (simp_all add: toDouble_nonneg)
  have mw: "0 \<le> ?mw" "toDouble ?mw = ?mw"
    using c(1) by (simp_all add: toDouble_nonneg toDouble_idem_nonneg)
  have mh: "0 \<le> ?mh" "toDouble ?mh = ?mh"
    using c(2) by (simp_all add: toDouble_nonneg toDouble_idem_nonneg)
  have sw: "style_width (containerRef (openImage env ed)) = Some ?w"
    and sh: "style_height (containerRef (openImage env ed)) = Some ?h"
    and bg: "backgroundImage (containerRef (openImage env ed))
          = Some (js ''url('' @ imageDataUrl ed @ js '')'')"
    by (simp_all add: opened image_onload_container Let_def)
  have cv: "width (canvasRef (openImage env ed)) = nat \<lfloor>?w\<rfloor>
      \<and> height (canvasRef (openImage env ed)) = nat \<lfloor>?h\<rfloor>
      \<and> bitmap (canvasRef (openImage env ed)) = [ClearRect 0 0 ?w ?h]"
    using image_onload_canvas [of env img ed ?w ?h] sw sh
    by (simp add: opened toULong_def)
  have b1: "?w \<le> ?mw"
    by (rule rounded_display_size(1) [OF iw ih mw mh])
  have b2: "?h \<le> ?mh"
    by (rule rounded_display_size(2) [OF iw ih mw mh])
  have b3: "?w = ?iw \<and> ?h = ?ih \<or> ?w = ?mw \<and> ?h = toDouble (?mw / ?r)
      \<or> ?w = toDouble (?mh * ?r) \<and> ?h = ?mh"
    by simp
  have b4: "?w = ?iw \<and> ?h = ?ih" if "?iw \<le> ?mw \<and> ?ih \<le> ?mh"
    using that by simp
  from sw sh bg cv b1 b2 b3 b4 show ?thesis
    unfolding Let_def by blast
qed

subsection \<open>The display size at given sizes\<close>

lemma image_onload_display:
  assumes "mw = toDouble (real (innerWidth env) * toDouble 0.8)"
    and "mh = toDouble (real (innerHeight env) * toDouble 0.7)"
    and "r = toDouble (real (img_width img) / real (img_height img))"
    and "iw = real (img_width img)" and "ih = real (img_height img)"
  shows "style_width (containerRef (image_onload env img ed)) =
           Some (if mh < (if mw < iw then toDouble (mw / r) else ih) then toDouble (mh * r)
                 else if mw < iw then mw else iw)"
    and "style_height (containerRef (image_onload env img ed)) =
           Some (if mh < (if mw < iw then toDouble (mw / r) else ih) then mh
                 else if mw < iw then toDouble (mw / r) else ih)"
  unfolding assms image_onload_container Let_def by simp_all

lemmas double_eval = roundTiesToEven_def power_int_minus

lemma double_0_8: "toDouble 0.8 = 3602879701896397 / 2 ^ 52"
  by (subst toDouble_eval [where e = "-1"]) (simp_all add: double_eval)

lemma double_0_7: "toDouble 0.7 = 3152519739159347 / 2 ^ 52"
  by (subst toDouble_eval [where e = "-1"]) (simp_all add: double_eval)

lemma maxWidth_1280: "toDouble (real 1280 * toDouble 0.8) = 1024"
  unfolding double_0_8 by (subst toDouble_eval [where e = 10]) (simp_all add: double_eval)

lemma maxWidth_1000: "toDouble (real 1000 * toDouble 0.8) = 800"
  unfolding double_0_8 by (subst toDouble_eval [where e = 9]) (simp_all add: double_eval)

lemma maxWidth_1001: "toDouble (real 1001 * toDouble 0.8) = 7043911292184167 / 2 ^ 43"
  unfolding double_0_8 by (subst toDouble_eval [where e = 9]) (simp_all add: double_eval)

lemma maxHeight_720: "toDouble (real 720 * toDouble 0.7) = 504 - 1 / 2 ^ 44"
  unfolding double_0_7 by (subst toDouble_eval [where e = 8]) (simp_all add: double_eval)

lemma maxHeight_1000: "toDouble (real 1000 * toDouble 0.7) = 700"
  unfolding double_0_7 by (subst toDouble_eval [where e = 9]) (simp_all add: double_eval)

lemma ratio_1920_1080: "toDouble (real 1920 / real 1080) = 2001599834386887 / 2 ^ 50"
  by (subst toDouble_eval [where e = 0]) (simp_all add: double_eval)

lemma ratio_504_504: "toDouble (real 504 / real 504) = 1"
  by (subst toDouble_eval [where e = 0]) (simp_all add: double_eval)

lemma ratio_1000_300: "toDouble (real 1000 / real 300) = 7505999378950827 / 2 ^ 51"
  by (subst toDouble_eval [where e = 1]) (simp_all add: double_eval)

lemma height_1024: "toDouble (1024 / (2001599834386887 / 2 ^ 50)) = 576"
  by (subst toDouble_eval [where e = 9]) (simp_all add: double_eval)

lemma width_720_1920_1080:
  "toDouble ((504 - 1 / 2 ^ 44) * (2001599834386887 / 2 ^ 50)) = 896 - 1 / 2 ^ 43"
  by (subst toDouble_eval [where e = 9]) (simp_all add: double_eval)

lemma width_720_504_504: "toDouble ((504 - 1 / 2 ^ 44) * 1) = 504 - 1 / 2 ^ 44"
  by (subst toDouble_eval [where e = 8]) (simp_all add: double_eval)

lemma height_1001_1000_300:
  "toDouble (7043911292184167 / 2 ^ 43 / (7505999378950827 / 2 ^ 51)) = 1056586693827625 / 2 ^ 42"
  by (subst toDouble_eval [where e = 7]) (simp_all add: double_eval)

theorem open_display_size_witness:
  "context2d (exampleBrowser (exampleImage 1920 1080) 1280 720)
   \<and> decodeImage (exampleBrowser (exampleImage 1920 1080) 1280 720)
        (imageDataUrl (mount (js ''data:image/png;base64,AAAA''))) = Some (exampleImage 1920 1080)
   \<and> 0 < img_width (exampleImage 1920 1080) \<and> img_width (exampleImage 1920 1080) < 2 ^ 32
   \<and> 0 < img_height (exampleImage 1920 1080) \<and> img_height (exampleImage 1920 1080) < 2 ^ 32
   \<and> style_width (containerRef (openImage (exampleBrowser (exampleImage 1920 1080) 1280 720)
        (mount (js ''data:image/png;base64,AAAA'')))) = Some (896 - 1 / 2 ^ 43)
   \<and> style_height (containerRef (openImage (exampleBrowser (exampleImage 1920 1080) 1280 720)
        (mount (js ''data:image/png;base64,AAAA'')))) = Some (504 - 1 / 2 ^ 44)
   \<and> width (canvasRef (openImage (exampleBrowser (exampleImage 1920 1080) 1280 720)
        (mount (js ''data:image/png;base64,AAAA'')))) = 895
   \<and> height (canvasRef (openImage (exampleBrowser (exampleImage 1920 1080) 1280 720)
        (mount (js ''data:image/png;base64,AAAA'')))) = 503"
proof -
  let ?I = "exampleImage 1920 1080"
  let ?E = "exampleBrowser ?I 1280 720"
  let ?ed = "mount (js ''data:image/png;base64,AAAA'')"
  have h1: "context2d ?E"
    by (simp add: exampleBrowser_def)
  have h2: "decodeImage ?E (imageDataUrl ?ed) = Some ?I"
    by (simp add: example_eval mount_def)
  have h3: "0 < img_width ?I" "img_width ?I < 2 ^ 32" "0 < img_height ?I" "img_height ?I < 2 ^ 32"
    by (simp_all add: exampleImage_def)
  have opened: "openImage ?E ?ed = image_onload ?E ?I ?ed"
    using h1 h2 by (simp add: openImage_def)
  have sizes: "innerWidth ?E = 1280" "innerHeight ?E = 720" "img_width ?I = 1920"
    "img_height ?I = 1080"
    by (simp_all add: exampleBrowser_def exampleImage_def)
  have mw: "1024 = toDouble (real (innerWidth ?E) * toDouble 0.8)"
    by (simp only: sizes maxWidth_1280)
  have mh: "504 - 1 / 2 ^ 44 = toDouble (real (innerHeight ?E) * toDouble 0.7)"
    by (simp only: sizes maxHeight_720)
  have r: "2001599834386887 / 2 ^ 50 = toDouble (real (img_width ?I) / real (img_height ?I))"
    by (simp only: sizes ratio_1920_1080)
  have iw: "1920 = real (img_width ?I)" and ih: "1080 = real (img_height ?I)"
    by (simp_all add: sizes)
  have sw: "style_width (containerRef (openImage ?E ?ed)) = Some (896 - 1 / 2 ^ 43)"
    unfolding opened image_onload_display(1) [OF mw mh r iw ih] height_1024 width_720_1920_1080
    by simp
  have sh: "style_height (containerRef (openImage ?E ?ed)) = Some (504 - 1 / 2 ^ 44)"
    unfolding opened image_onload_display(2) [OF mw mh r iw ih] height_1024 width_720_1920_1080
    by simp
  obtain w h where wh: "style_width (containerRef (openImage ?E ?ed)) = Some w"
    "style_height (containerRef (openImage ?E ?ed)) = Some h"
    and cv: "width (canvasRef (openImage ?E ?ed)) = nat \<lfloor>w\<rfloor>"
    "height (canvasRef (openImage ?E ?ed)) = nat \<lfloor>h\<rfloor>"
    using open_display_size [OF h1 h2 h3] by blast
  from wh sw sh have w: "w = 896 - 1 / 2 ^ 43" and h: "h = 504 - 1 / 2 ^ 44"
    by simp_all
  have "width (canvasRef (openImage ?E ?ed)) = 895" "height (canvasRef (openImage ?E ?ed)) = 503"
    unfolding cv w h by simp_all
  with h1 h2 h3 sw sh show ?thesis by blast
qed

theorem open_native_size_counterexample:
  "real (img_width (exampleImage 504 504)) \<le> 0.8 * real 1000
   \<and> real (img_height (exampleImage 504 504)) \<le> 0.7 * real 720
   \<and> style_width (containerRef (openImage (exampleBrowser (exampleImage 504 504) 1000 720)
        (mount (js ''data:image/png;base64,AAAA'')))) = Some (504 - 1 / 2 ^ 44)
   \<and> style_height (containerRef (openImage (exampleBrowser (exampleImage 504 504) 1000 720)
        (mount (js ''data:image/png;base64,AAAA'')))) = Some (504 - 1 / 2 ^ 44)
   \<and> width (canvasRef (openImage (exampleBrowser (exampleImage 504 504) 1000 720)
        (mount (js ''data:image/png;base64,AAAA'')))) = 503
   \<and> height (canvasRef (openImage (exampleBrowser (exampleImage 504 504) 1000 720)
        (mount (js ''data:image/png;base64,AAAA'')))) = 503
   \<and> style_width (containerRef (openImage (exampleBrowser (exampleImage 1000 300) 1001 1000)
        (mount (js ''data:image/png;base64,AAAA'')))) = Some (7043911292184167 / 2 ^ 43)
   \<and> style_height (containerRef (openImage (exampleBrowser (exampleImage 1000 300) 1001 1000)
        (mount (js ''data:image/png;base64,AAAA'')))) = Some (1056586693827625 / 2 ^ 42)
   \<and> (7043911292184167 / 2 ^ 43 :: real) > 0.8 * real 1001
   \<and> (7043911292184167 / 2 ^ 43 :: real) * real 300 \<noteq> 1056586693827625 / 2 ^ 42 * real 1000"
proof -
  let ?ed = "mount (js ''data:image/png;base64,AAAA'')"
  let ?I = "exampleImage 504 504"
  let ?E = "exampleBrowser ?I 1000 720"
  have opened: "openImage ?E ?ed = image_onload ?E ?I ?ed"
    by (simp add: openImage_def example_eval mount_def)
  have sizes: "innerWidth ?E = 1000" "innerHeight ?E = 720" "img_width ?I = 504"
    "img_height ?I = 504"
    by (simp_all add: exampleBrowser_def exampleImage_def)
  have mw: "800 = toDouble (real (innerWidth ?E) * toDouble 0.8)"
    by (simp only: sizes maxWidth_1000)
  have mh: "504 - 1 / 2 ^ 44 = toDouble (real (innerHeight ?E) * toDouble 0.7)"
    by (simp only: sizes maxHeight_720)
  have r: "1 = toDouble (real (img_width ?I) / real (img_height ?I))"
    by (simp only: sizes ratio_504_504)
  have iw: "504 = real (img_width ?I)" and ih: "504 = real (img_height ?I)"
    by (simp_all add: sizes)
  have sw: "style_width (containerRef (openImage ?E ?ed)) = Some (504 - 1 / 2 ^ 44)"
    unfolding opened image_onload_display(1) [OF mw mh r iw ih] width_720_504_504
    by simp
  have sh: "style_height (containerRef (openImage ?E ?ed)) = Some (504 - 1 / 2 ^ 44)"
    unfolding opened image_onload_display(2) [OF mw mh r iw ih] width_720_504_504
    by simp
  from image_onload_canvas [of ?E ?I ?ed "504 - 1 / 2 ^ 44" "504 - 1 / 2 ^ 44"] sw sh
  have cv: "width (canvasRef (openImage ?E ?ed)) = 503" "height (canvasRef (openImage ?E ?ed)) = 503"
    by (simp_all add: opened toULong_def)
  let ?J = "exampleImage 1000 300"
  let ?F = "exampleBrowser ?J 1001 1000"
  have opened': "openImage ?F ?ed = image_onload ?F ?J ?ed"
    by (simp add: openImage_def example_eval mount_def)
  have sizes': "innerWidth ?F = 1001" "innerHeight ?F = 1000" "img_width ?J = 1000"
    "img_height ?J = 300"
    by (simp_all add: exampleBrowser_def exampleImage_def)
  have mw': "7043911292184167 / 2 ^ 43 = toDouble (real (innerWidth ?F) * toDouble 0.8)"
    by (simp only: sizes' maxWidth_1001)
  have mh': "700 = toDouble (real (innerHeight ?F) * toDouble 0.7)"
    by (simp only: sizes' maxHeight_1000)
  have r': "7505999378950827 / 2 ^ 51 = toDouble (real (img_width ?J) / real (img_height ?J))"
    by (simp only: sizes' ratio_1000_300)
  have iw': "1000 = real (img_width ?J)" and ih': "300 = real (img_height ?J)"
    by (simp_all add: sizes')
  have sw': "style_width (containerRef (openImage ?F ?ed)) = Some (7043911292184167 / 2 ^ 43)"
    unfolding opened' image_onload_display(1) [OF mw' mh' r' iw' ih'] height_1001_1000_300
    by simp
  have sh': "style_height (containerRef (openImage ?F ?ed)) = Some (1056586693827625 / 2 ^ 42)"
    unfolding opened' image_onload_display(2) [OF mw' mh' r' iw' ih'] height_1001_1000_300
    by simp
  have fits: "real (img_width ?I) \<le> 0.8 * real 1000" "real (img_height ?I) \<le> 0.7 * real 720"
    by (simp_all add: exampleImage_def)
  have num: "(7043911292184167 / 2 ^ 43 :: real) > 0.8 * real 1001"
    "(7043911292184167 / 2 ^ 43 :: real) * real 300 \<noteq> 1056586693827625 / 2 ^ 42 * real 1000"
    by simp_all
  from fits sw sh cv sw' sh' num show ?thesis by blast
qed

subsection \<open>Saving\<close>

text \<open>
  C10 (as amended). \<open>handleSave\<close> decodes the background again from the data URL of
  the component. When that decoding fails, no callback is called: there is neither an
  argument for \<^verbatim>\<open>onSave\<close> nor an error, and \<open>handleSave\<close> changes nothing in the
  component, which stays as it is. Compose, given the same URL, rejects.
\<close>

theorem save_decode_failure_silent:
  assumes "decodeImage env (imageDataUrl ed) = None"
  shows "fst (handleSave env doc ed) = None
     \<and> (js ''data:'' @ mimeType @ js '';base64,'' @ base64Image = imageDataUrl ed
        \<longrightarrow> (\<exists>e. fst (mergeTextAndImage env doc base64Image mimeType text) = Inl e))"
proof -
  have "fst (handleSave env doc ed) = None"
    using assms by (simp add: handleSave_def createElement_canvas_def Let_def)
  moreover have "\<exists>e. fst (mergeTextAndImage env doc base64Image mimeType text) = Inl e"
    if "js ''data:'' @ mimeType @ js '';base64,'' @ base64Image = imageDataUrl ed"
    using mergeTextAndImage_rejects [of env mimeType base64Image doc "text"] assms that by simp
  ultimately show ?thesis by blast
qed

theorem save_decode_failure_silent_witness:
  "decodeImage (exampleBrowser (exampleImage 1000 1000) 0 0)
      (imageDataUrl (mount (js ''data:image/png;base64,!!!!''))) = None
   \<and> js ''data:'' @ js ''image/png'' @ js '';base64,'' @ js ''!!!!''
        = imageDataUrl (mount (js ''data:image/png;base64,!!!!''))
   \<and> fst (handleSave (exampleBrowser (exampleImage 1000 1000) 0 0) []
        (mount (js ''data:image/png;base64,!!!!''))) = None
   \<and> (\<exists>e. fst (mergeTextAndImage (exampleBrowser (exampleImage 1000 1000) 0 0) [] (js ''!!!!'')
              (js ''image/png'') (exampleCaption (js ''Como crescer''))) = Inl e)"
proof -
  let ?E = "exampleBrowser (exampleImage 1000 1000) 0 0"
  let ?ed = "mount (js ''data:image/png;base64,!!!!'')"
  have h: "decodeImage ?E (imageDataUrl ?ed) = None"
    by (simp add: example_eval mount_def js_def)
  have u: "js ''data:'' @ js ''image/png'' @ js '';base64,'' @ js ''!!!!'' = imageDataUrl ?ed"
    by (simp add: mount_def js_def)
  from save_decode_failure_silent [OF h, of "[]" "js ''image/png''" "js ''!!!!''"
      "exampleCaption (js ''Como crescer'')"] h u
  show ?thesis by blast
qed

theorem open_decode_failure_counterexample:
  "decodeImage (exampleBrowser (exampleImage 1000 1000) 0 0)
      (imageDataUrl (mount (js ''data:image/png;base64,!!!!''))) = None
   \<and> openImage (exampleBrowser (exampleImage 1000 1000) 0 0)
        (mount (js ''data:image/png;base64,!!!!'')) = mount (js ''data:image/png;base64,!!!!'')"
  by (simp add: openImage_def example_eval mount_def js_def)


end
